theory Spec2Isabelle
  imports Complex_Main "HOL-Library.AList"
begin

section \<open>The Synergy Squares game server\<close>

text \<open>
  The server part of \<^verbatim>\<open>src/public/app.js\<close> keeps the whole game in module-level
  variables and answers each HTTP request by one synchronous handler. The handlers are
  modelled as functions from the state before the request to the state after it together
  with the response written by \<^verbatim>\<open>writeJson\<close>.

  Numbers. \<^verbatim>\<open>currentLevel\<close> and \<^verbatim>\<open>squaresCount\<close> start at 1 and 4 and are only
  incremented and doubled, so they are natural numbers (a level with \<open>n\<close> squares is
  completed only with \<open>n\<close> players online, which keeps both far inside the range where
  JavaScript numbers are exact). The \<^verbatim>\<open>squareIndex\<close> of a request is whatever number the
  JSON body carries; the handler only compares it and uses it as a property key, so it is
  modelled as a rational number. Two numbers give the same property key exactly when they
  are equal as rationals (\<open>-0\<close> and \<open>0\<close> both give the key \<^verbatim>\<open>"0"\<close>).

  Objects used as dictionaries. \<^verbatim>\<open>occupied\<close> and \<^verbatim>\<open>playersOnline\<close> are association
  lists of their own properties with distinct keys. \<^verbatim>\<open>playersOnline\<close> is in insertion
  order, the order in which \<^verbatim>\<open>Object.values\<close> lists the players; the order of
  \<^verbatim>\<open>occupied\<close> has no meaning, it is only ever read by key and counted.

  Identifiers. A \<^verbatim>\<open>playerId\<close> is the string a request carries, empty when the field is
  missing; the identifiers of stored players are those that \<^verbatim>\<open>generatePlayerId\<close> issues,
  which start with \<^verbatim>\<open>p_\<close>.
\<close>

subsection \<open>Data\<close>

text \<open>The fields shared by a stored player and an online player; \<open>player_id\<close> is the
  field \<^verbatim>\<open>id\<close> of the source.\<close>

record profile =
  player_id :: string
  nickname :: string
  country :: string
  role :: string
  levelsCompleted :: nat

text \<open>An element of the array \<^verbatim>\<open>players\<close>, as \<^verbatim>\<open>handleRegister\<close> builds it.\<close>

record stored = profile +
  email :: string
  password :: string

text \<open>A value of \<^verbatim>\<open>playersOnline\<close>, as \<^verbatim>\<open>ensureOnline\<close> builds it; \<^verbatim>\<open>null\<close> is \<open>None\<close>.\<close>

record online = profile +
  squareIndex :: "rat option"

record state =
  players :: "stored list"
  playersFile :: "stored list"
  currentLevel :: nat
  squaresCount :: nat
  occupied :: "(rat \<times> string) list"
  playersOnline :: "(string \<times> online) list"

text \<open>The object built by \<^verbatim>\<open>getBoardState\<close> and its \<^verbatim>\<open>players\<close> entries.\<close>

record player_view =
  view_id :: string
  view_nickname :: string
  view_country :: string
  view_squareIndex :: "rat option"

record board_state =
  board_level :: nat
  board_squaresCount :: nat
  board_occupied :: "(rat \<times> string) list"
  board_players :: "player_view list"

text \<open>What \<^verbatim>\<open>writeJson\<close> sends: a failure with its status code and message, or one of
  the three successful bodies.\<close>

datatype response =
    Failure nat string
  | Success board_state
  | HoldSuccess board_state bool
  | BoardReply board_state

text \<open>The outcome of \<^verbatim>\<open>parseJsonBody\<close>.\<close>

datatype 'a parsed = InvalidJSON | Body 'a

subsection \<open>Player storage\<close>

fun getPlayerById :: "stored list \<Rightarrow> string \<Rightarrow> stored option" where
  "getPlayerById [] i = None"
| "getPlayerById (p # ps) i = (if player_id p = i then Some p else getPlayerById ps i)"

text \<open>\<open>playersFile\<close> is the content of \<^verbatim>\<open>players.json\<close>; \<^verbatim>\<open>savePlayers\<close> overwrites it with
  the array \<^verbatim>\<open>players\<close> (the write is taken to succeed).\<close>

definition savePlayers :: "state \<Rightarrow> state" where
  "savePlayers st = st\<lparr>playersFile := players st\<rparr>"

subsection \<open>Game state management\<close>

definition initial :: "stored list \<Rightarrow> state" where
  "initial ps = \<lparr>players = ps, playersFile = ps, currentLevel = 1, squaresCount = 4,
     occupied = [], playersOnline = []\<rparr>"

definition view :: "online \<Rightarrow> player_view" where
  "view p = \<lparr>view_id = player_id p, view_nickname = nickname p, view_country = country p,
     view_squareIndex = squareIndex p\<rparr>"

definition getBoardState :: "state \<Rightarrow> board_state" where
  "getBoardState st = \<lparr>board_level = currentLevel st, board_squaresCount = squaresCount st,
     board_occupied = occupied st, board_players = map view (map snd (playersOnline st))\<rparr>"

definition checkLevelCompletion :: "state \<Rightarrow> bool" where
  "checkLevelCompletion st =
     (let allOccupied = (length (occupied st) = squaresCount st);
          activePlayers = length (playersOnline st)
      in allOccupied \<and> activePlayers = squaresCount st)"

text \<open>\<^verbatim>\<open>stored.levelsCompleted = (stored.levelsCompleted || 0) + 1\<close> on the record that
  \<^verbatim>\<open>getPlayerById\<close> finds, the first one with the identifier.\<close>

fun creditStored :: "string \<Rightarrow> stored list \<Rightarrow> stored list" where
  "creditStored i [] = []"
| "creditStored i (p # ps) =
     (if player_id p = i then p\<lparr>levelsCompleted := levelsCompleted p + 1\<rparr> # ps
      else p # creditStored i ps)"

text \<open>The first \<^verbatim>\<open>forEach\<close> of \<^verbatim>\<open>completeLevel\<close>: it walks the online players in order and
  carries the array \<^verbatim>\<open>players\<close> along.\<close>

fun creditHolders ::
  "(string \<times> online) list \<Rightarrow> stored list \<Rightarrow> (string \<times> online) list \<times> stored list" where
  "creditHolders [] ps = ([], ps)"
| "creditHolders ((k, p) # rest) ps =
     (if squareIndex p \<noteq> None then
        (case creditHolders rest (creditStored (player_id p) ps) of
           (rest', ps') \<Rightarrow> ((k, p\<lparr>levelsCompleted := levelsCompleted p + 1\<rparr>) # rest', ps'))
      else
        (case creditHolders rest ps of (rest', ps') \<Rightarrow> ((k, p) # rest', ps')))"

definition completeLevel :: "state \<Rightarrow> state" where
  "completeLevel st =
     (case creditHolders (playersOnline st) (players st) of
        (onl, ps) \<Rightarrow>
          (let st1 = savePlayers (st\<lparr>players := ps, playersOnline := onl\<rparr>)
           in st1\<lparr>currentLevel := currentLevel st1 + 1,
                  squaresCount := squaresCount st1 * 2,
                  occupied := [],
                  playersOnline :=
                    map (\<lambda>(k, p). (k, p\<lparr>squareIndex := None\<rparr>)) (playersOnline st1)\<rparr>))"

subsection \<open>Request handlers\<close>

definition handleBoard :: "state \<Rightarrow> state \<times> response" where
  "handleBoard st = (st, BoardReply (getBoardState st))"

text \<open>
  \<^verbatim>\<open>ensureOnline\<close> returns \<^verbatim>\<open>null\<close> (\<open>None\<close>) for an identifier that \<^verbatim>\<open>players\<close> does not
  hold. Otherwise the identifier is a stored one, so it starts with \<^verbatim>\<open>p_\<close>, is not the
  name of anything that \<^verbatim>\<open>playersOnline\<close> inherits, and \<^verbatim>\<open>playersOnline[playerId]\<close> is the
  player's own entry or nothing. \<open>newOnline\<close> is the object literal of \<^verbatim>\<open>ensureOnline\<close>;
  \<^verbatim>\<open>stored.levelsCompleted || 0\<close> is the stored number.
\<close>

definition newOnline :: "stored \<Rightarrow> online" where
  "newOnline s = \<lparr>player_id = player_id s, nickname = nickname s, country = country s,
     role = role s, levelsCompleted = levelsCompleted s, squareIndex = None\<rparr>"

definition ensureOnline :: "state \<Rightarrow> string \<Rightarrow> state \<times> online option" where
  "ensureOnline st playerId =
     (case getPlayerById (players st) playerId of
        None \<Rightarrow> (st, None)
      | Some s \<Rightarrow>
          (case map_of (playersOnline st) playerId of
             Some p \<Rightarrow> (st, Some p)
           | None \<Rightarrow>
               (let p = newOnline s
                in (st\<lparr>playersOnline := playersOnline st @ [(playerId, p)]\<rparr>, Some p))))"

text \<open>The two assignments under the comment \<^verbatim>\<open>// Assign square\<close>; \<open>player\<close> is the entry
  of \<open>playerId\<close> in \<^verbatim>\<open>playersOnline\<close>.\<close>

definition assignSquare :: "state \<Rightarrow> string \<Rightarrow> online \<Rightarrow> rat \<Rightarrow> state" where
  "assignSquare st playerId player sq =
     st\<lparr>occupied := AList.update sq (player_id player) (occupied st),
        playersOnline :=
          AList.update playerId (player\<lparr>squareIndex := Some sq\<rparr>) (playersOnline st)\<rparr>"

text \<open>\<^verbatim>\<open>occupied[squareIndex]\<close> as a condition: the property exists and its value, a
  string, is not empty.\<close>

definition occupiedAt :: "state \<Rightarrow> rat \<Rightarrow> bool" where
  "occupiedAt st sq = (case map_of (occupied st) sq of None \<Rightarrow> False | Some v \<Rightarrow> v \<noteq> [])"

text \<open>
  The body of a hold request carries \<^verbatim>\<open>playerId\<close>, a string (empty when the field is
  missing), and \<^verbatim>\<open>squareIndex\<close>, a number or \<open>None\<close> when it is not of type
  \<^verbatim>\<open>number\<close>.
\<close>

definition handleHold :: "state \<Rightarrow> (string \<times> rat option) parsed \<Rightarrow> state \<times> response" where
  "handleHold st body =
     (case body of
        InvalidJSON \<Rightarrow> (st, Failure 400 ''Invalid JSON'')
      | Body (playerId, None) \<Rightarrow> (st, Failure 400 ''Missing parameters'')
      | Body (playerId, Some sq) \<Rightarrow>
          if playerId = [] then (st, Failure 400 ''Missing parameters'')
          else
            (case ensureOnline st playerId of
               (st1, None) \<Rightarrow> (st1, Failure 400 ''Unknown player'')
             | (st1, Some player) \<Rightarrow>
                 if sq < 0 \<or> sq \<ge> of_nat (squaresCount st1) then
                   (st1, Failure 400 ''Invalid square index'')
                 else if length (playersOnline st1) \<noteq> squaresCount st1 then
                   (st1, Failure 403 ''Not enough players to start level'')
                 else if squareIndex player \<noteq> None then
                   (st1, Failure 403 ''Player already holds a square'')
                 else if occupiedAt st1 sq then
                   (st1, Failure 403 ''Square already occupied'')
                 else
                   (let st2 = assignSquare st1 playerId player sq in
                    if checkLevelCompletion st2 then
                      (let st3 = completeLevel st2
                       in (st3, HoldSuccess (getBoardState st3) True))
                    else (st2, HoldSuccess (getBoardState st2) False))))"

text \<open>
  \<^verbatim>\<open>handleRelease\<close> reads \<^verbatim>\<open>playersOnline[playerId]\<close> for whatever string the request
  carries, without asking \<^verbatim>\<open>players\<close> first. \<^verbatim>\<open>playersOnline\<close> is created by \<^verbatim>\<open>{}\<close>, so
  for a key that is not one of its own properties the read continues in
  \<^verbatim>\<open>Object.prototype\<close>. Its twelve members are functions and, for \<^verbatim>\<open>__proto__\<close>, the
  prototype object itself: each is true as a condition and has no property
  \<^verbatim>\<open>squareIndex\<close>, so the handler skips the \<^verbatim>\<open>if\<close> and answers with success.
\<close>

definition objectPrototypeKeys :: "string list" where
  "objectPrototypeKeys =
     [''constructor'', ''__defineGetter__'', ''__defineSetter__'', ''hasOwnProperty'',
      ''__lookupGetter__'', ''__lookupSetter__'', ''isPrototypeOf'',
      ''propertyIsEnumerable'', ''toString'', ''valueOf'', ''__proto__'',
      ''toLocaleString'']"

definition handleRelease :: "state \<Rightarrow> string parsed \<Rightarrow> state \<times> response" where
  "handleRelease st body =
     (case body of
        InvalidJSON \<Rightarrow> (st, Failure 400 ''Invalid JSON'')
      | Body playerId \<Rightarrow>
          if playerId = [] then (st, Failure 400 ''Missing playerId'')
          else
            (case map_of (playersOnline st) playerId of
               None \<Rightarrow>
                 if playerId \<in> set objectPrototypeKeys then (st, Success (getBoardState st))
                 else (st, Failure 400 ''Player not online'')
             | Some player \<Rightarrow>
                 (case squareIndex player of
                    None \<Rightarrow> (st, Success (getBoardState st))
                  | Some idx \<Rightarrow>
                      (let st1 = st\<lparr>occupied := AList.delete idx (occupied st),
                                    playersOnline :=
                                      AList.update playerId (player\<lparr>squareIndex := None\<rparr>)
                                        (playersOnline st)\<rparr>
                       in (st1, Success (getBoardState st1))))))"

definition handleJoin :: "state \<Rightarrow> string parsed \<Rightarrow> state \<times> response" where
  "handleJoin st body =
     (case body of
        InvalidJSON \<Rightarrow> (st, Failure 400 ''Invalid JSON'')
      | Body playerId \<Rightarrow>
          if playerId = [] then (st, Failure 400 ''Missing playerId'')
          else
            (case ensureOnline st playerId of
               (st1, None) \<Rightarrow> (st1, Failure 400 ''Unknown player'')
             | (st1, Some player) \<Rightarrow> (st1, Success (getBoardState st1))))"

subsection \<open>The operations and failures of the specification\<close>

text \<open>The specification's \<open>join\<close>, \<open>hold\<close>, \<open>release\<close> and \<open>getBoard\<close> are the four
  handlers on a parsed body; its failures are these responses. \<open>handleRequest\<close> is the
  routing of the four game routes, and \<open>run\<close> serves a sequence of requests one after
  the other, as the single-threaded server does.\<close>

definition UnknownPlayer :: response where
  "UnknownPlayer = Failure 400 ''Unknown player''"

definition NotOnline :: response where
  "NotOnline = Failure 400 ''Player not online''"

definition InvalidSquare :: response where
  "InvalidSquare = Failure 400 ''Invalid square index''"

definition AdmissionClosed :: response where
  "AdmissionClosed = Failure 403 ''Not enough players to start level''"

definition AlreadyHolding :: response where
  "AlreadyHolding = Failure 403 ''Player already holds a square''"

definition SquareTaken :: response where
  "SquareTaken = Failure 403 ''Square already occupied''"

datatype request = Join "string parsed" | Hold "(string \<times> rat option) parsed"
  | Release "string parsed" | GetBoard

fun handleRequest :: "state \<Rightarrow> request \<Rightarrow> state \<times> response" where
  "handleRequest st (Join b) = handleJoin st b"
| "handleRequest st (Hold b) = handleHold st b"
| "handleRequest st (Release b) = handleRelease st b"
| "handleRequest st GetBoard = handleBoard st"

fun run :: "state \<Rightarrow> request list \<Rightarrow> state" where
  "run st [] = st"
| "run st (r # rs) = run (fst (handleRequest st r)) rs"

subsection \<open>The vocabulary of the specification\<close>

text \<open>The Presence Set is the set of own keys of \<^verbatim>\<open>playersOnline\<close>; a player's
  \<open>heldSquare\<close> is the \<^verbatim>\<open>squareIndex\<close> of its entry; the occupancy is \<^verbatim>\<open>occupied\<close> read
  as a partial map.\<close>

definition presenceSet :: "state \<Rightarrow> string set" where
  "presenceSet st = fst ` set (playersOnline st)"

definition heldSquare :: "state \<Rightarrow> string \<Rightarrow> rat option" where
  "heldSquare st p =
     (case map_of (playersOnline st) p of None \<Rightarrow> None | Some pl \<Rightarrow> squareIndex pl)"

definition occupancy :: "state \<Rightarrow> rat \<rightharpoonup> string" where
  "occupancy st = map_of (occupied st)"

text \<open>
  A state is well formed when the two association lists stand for objects (no key twice)
  and every entry of \<^verbatim>\<open>playersOnline\<close> sits under its own, non-empty identifier, as
  \<^verbatim>\<open>ensureOnline\<close> stores it.
\<close>

definition wellFormed :: "state \<Rightarrow> bool" where
  "wellFormed st \<longleftrightarrow>
     distinct (map fst (occupied st)) \<and> distinct (map fst (playersOnline st)) \<and>
     list_all (\<lambda>(k, p). player_id p = k \<and> k \<noteq> []) (playersOnline st)"

text \<open>Every occupied square is the one its holder records, and every square an online
  player records is occupied by that player.\<close>

definition consistent :: "state \<Rightarrow> bool" where
  "consistent st \<longleftrightarrow>
     list_all (\<lambda>(i, p). heldSquare st p = Some i) (occupied st) \<and>
     list_all (\<lambda>(k, pl). case squareIndex pl of None \<Rightarrow> True
                 | Some i \<Rightarrow> map_of (occupied st) i = Some k) (playersOnline st)"

text \<open>The same agreement, stated on the two maps.\<close>

definition consMap :: "(rat \<rightharpoonup> string) \<Rightarrow> (string \<rightharpoonup> online) \<Rightarrow> bool" where
  "consMap occ onl \<longleftrightarrow>
     (\<forall>i p. occ i = Some p \<longleftrightarrow> (\<exists>pl. onl p = Some pl \<and> squareIndex pl = Some i))"

text \<open>What the two \<^verbatim>\<open>forEach\<close> loops of \<^verbatim>\<open>completeLevel\<close> do to one online player.\<close>

definition credited :: "online \<Rightarrow> online" where
  "credited p = (if squareIndex p \<noteq> None
     then p\<lparr>levelsCompleted := levelsCompleted p + 1\<rparr> else p)\<lparr>squareIndex := None\<rparr>"

text \<open>
  The invariant in the words of the specification: square \<open>i\<close> is occupied by \<open>p\<close> exactly
  when \<open>p\<close> is online and holds \<open>i\<close>; no player occupies two squares; every occupant is
  online; no square and no player is listed twice.
\<close>

definition bidirectional :: "state \<Rightarrow> bool" where
  "bidirectional st \<longleftrightarrow>
     (\<forall>i p. occupancy st i = Some p \<longleftrightarrow> p \<in> presenceSet st \<and> heldSquare st p = Some i) \<and>
     (\<forall>i j p. occupancy st i = Some p \<and> occupancy st j = Some p \<longrightarrow> i = j) \<and>
     (\<forall>i p. occupancy st i = Some p \<longrightarrow> p \<in> presenceSet st) \<and>
     distinct (map fst (occupied st)) \<and> distinct (map fst (playersOnline st))"

subsection \<open>Example states\<close>

text \<open>
  Four stored players; \<open>trio\<close> has three of them online and \<open>lobby\<close> all four, on the
  first level with its four squares. In \<open>lobbyHeld\<close> player \<^verbatim>\<open>p_a\<close> holds square 0 and in
  \<open>lobbyHalf\<close> the square \<open>1/2\<close>; in \<open>almost\<close> three players hold squares 0, 1 and 2, and
  \<open>nextLevel\<close> is the state after the fourth player takes square 3. \<open>veteranLobby\<close> is
  \<open>lobby\<close> for players who have completed five levels before.
\<close>

definition demoPlayer :: "string \<Rightarrow> stored" where
  "demoPlayer i = \<lparr>player_id = i, nickname = ''nick'', country = ''NL'', role = ''player'',
     levelsCompleted = 0, email = ''mail'', password = ''secret''\<rparr>"

definition demoPlayers :: "stored list" where
  "demoPlayers = [demoPlayer ''p_a'', demoPlayer ''p_b'', demoPlayer ''p_c'', demoPlayer ''p_d'']"

definition lobby :: state where
  "lobby = run (initial demoPlayers)
     [Join (Body ''p_a''), Join (Body ''p_b''), Join (Body ''p_c''), Join (Body ''p_d'')]"

definition demoRequests :: "request list" where
  "demoRequests = [Hold (Body (''p_a'', Some 0)), Hold (Body (''p_b'', Some 1)),
     Release (Body ''p_a''), Join (Body ''p_a'')]"

definition trio :: state where
  "trio = run (initial demoPlayers)
     [Join (Body ''p_a''), Join (Body ''p_b''), Join (Body ''p_c'')]"

definition lobbyHeld :: state where
  "lobbyHeld = fst (handleHold lobby (Body (''p_a'', Some 0)))"

definition lobbyHalf :: state where
  "lobbyHalf = assignSquare lobby ''p_a'' (newOnline (demoPlayer ''p_a'')) (1 / 2)"

definition almost :: state where
  "almost = run lobby
     [Hold (Body (''p_a'', Some 0)), Hold (Body (''p_b'', Some 1)), Hold (Body (''p_c'', Some 2))]"

definition nextLevel :: state where
  "nextLevel = fst (handleHold almost (Body (''p_d'', Some 3)))"

definition veteranLobby :: state where
  "veteranLobby = run (initial (map (\<lambda>s. s\<lparr>levelsCompleted := 5\<rparr>) demoPlayers))
     [Join (Body ''p_a''), Join (Body ''p_b''), Join (Body ''p_c''), Join (Body ''p_d'')]"

section \<open>Association lists as objects\<close>

lemma getPlayerById_Some: "getPlayerById ps i = Some s \<Longrightarrow> player_id s = i \<and> s \<in> set ps"
  by (induction ps) (auto split: if_splits)

lemma list_all_alist:
  "distinct (map fst xs) \<Longrightarrow>
     list_all (\<lambda>(k, v). P k v) xs \<longleftrightarrow> (\<forall>k v. map_of xs k = Some v \<longrightarrow> P k v)"
  unfolding list_all_iff
  by (fastforce dest: map_of_SomeD intro: map_of_is_SomeI)

lemma map_of_append_new:
  "map_of xs k = None \<Longrightarrow> map_of (xs @ [(k, v)]) = (map_of xs)(k \<mapsto> v)"
  by (auto simp: fun_eq_iff map_add_def split: option.splits)

lemma list_all_update:
  "list_all P al \<Longrightarrow> P (k, v) \<Longrightarrow> list_all P (AList.update k v al)"
  by (induction al) auto

lemma consMapD1:
  "consMap occ onl \<Longrightarrow> occ i = Some p \<Longrightarrow> \<exists>pl. onl p = Some pl \<and> squareIndex pl = Some i"
  by (simp add: consMap_def)

lemma consMapD2:
  "consMap occ onl \<Longrightarrow> onl p = Some pl \<Longrightarrow> squareIndex pl = Some i \<Longrightarrow> occ i = Some p"
  unfolding consMap_def by blast

lemma consMapI:
  assumes "\<And>i p. occ i = Some p \<Longrightarrow> \<exists>pl. onl p = Some pl \<and> squareIndex pl = Some i"
    and "\<And>p pl i. onl p = Some pl \<Longrightarrow> squareIndex pl = Some i \<Longrightarrow> occ i = Some p"
  shows "consMap occ onl"
  unfolding consMap_def using assms by blast

lemma consMap_insert:
  assumes c: "consMap occ onl" and n: "onl p = None" and e: "squareIndex e = None"
  shows "consMap occ (onl(p \<mapsto> e))"
proof (rule consMapI)
  fix i q assume "occ i = Some q"
  from consMapD1 [OF c this] obtain pl where pl: "onl q = Some pl" "squareIndex pl = Some i"
    by blast
  with n have "q \<noteq> p" by auto
  with pl show "\<exists>pl. (onl(p \<mapsto> e)) q = Some pl \<and> squareIndex pl = Some i" by simp
next
  fix q pl i assume a: "(onl(p \<mapsto> e)) q = Some pl" "squareIndex pl = Some i"
  with e have "q \<noteq> p" by (auto split: if_splits)
  with a have "onl q = Some pl" by simp
  from consMapD2 [OF c this a(2)] show "occ i = Some q" .
qed

lemma consMap_assign:
  assumes c: "consMap occ onl" and p: "onl p = Some pl" and h: "squareIndex pl = None"
    and f: "occ sq = None"
  shows "consMap (occ(sq \<mapsto> p)) (onl(p \<mapsto> pl\<lparr>squareIndex := Some sq\<rparr>))"
proof (rule consMapI)
  fix i q assume a: "(occ(sq \<mapsto> p)) i = Some q"
  show "\<exists>x. (onl(p \<mapsto> pl\<lparr>squareIndex := Some sq\<rparr>)) q = Some x \<and> squareIndex x = Some i"
  proof (cases "i = sq")
    case True
    with a show ?thesis by simp
  next
    case False
    with a have o: "occ i = Some q" by simp
    from consMapD1 [OF c o] obtain x where x: "onl q = Some x" "squareIndex x = Some i"
      by blast
    with p h have "q \<noteq> p" by auto
    with x show ?thesis by simp
  qed
next
  fix q x i
  assume a: "(onl(p \<mapsto> pl\<lparr>squareIndex := Some sq\<rparr>)) q = Some x" "squareIndex x = Some i"
  show "(occ(sq \<mapsto> p)) i = Some q"
  proof (cases "q = p")
    case True
    with a show ?thesis by auto
  next
    case False
    with a have o: "onl q = Some x" by simp
    from consMapD2 [OF c o a(2)] have "occ i = Some q" .
    with f have "i \<noteq> sq" by auto
    with \<open>occ i = Some q\<close> show ?thesis by simp
  qed
qed

lemma consMap_release:
  assumes c: "consMap occ onl" and p: "onl p = Some pl" and h: "squareIndex pl = Some idx"
  shows "consMap (occ(idx := None)) (onl(p \<mapsto> pl\<lparr>squareIndex := None\<rparr>))"
proof (rule consMapI)
  fix i q assume a: "(occ(idx := None)) i = Some q"
  then have ne: "i \<noteq> idx" and o: "occ i = Some q" by (auto split: if_splits)
  from consMapD1 [OF c o] obtain x where x: "onl q = Some x" "squareIndex x = Some i"
    by blast
  with p h ne have "q \<noteq> p" by auto
  with x show "\<exists>x. (onl(p \<mapsto> pl\<lparr>squareIndex := None\<rparr>)) q = Some x \<and> squareIndex x = Some i"
    by simp
next
  fix q x i
  assume a: "(onl(p \<mapsto> pl\<lparr>squareIndex := None\<rparr>)) q = Some x" "squareIndex x = Some i"
  then have ne: "q \<noteq> p" by (auto split: if_splits)
  with a have o: "onl q = Some x" by simp
  from consMapD2 [OF c o a(2)] have oi: "occ i = Some q" .
  from consMapD2 [OF c p h] have "occ idx = Some p" .
  with oi ne have "i \<noteq> idx" by auto
  with oi show "(occ(idx := None)) i = Some q" by simp
qed

section \<open>The invariant\<close>

text \<open>
  \<open>wellFormed\<close> and \<open>consistent\<close> hold in the initial state and are kept by every handler.
  \<open>consistent\<close> is checked on the lists; on well-formed states it says that the two maps
  agree (\<open>consMap\<close>).
\<close>

lemma consistent_iff:
  assumes "wellFormed st"
  shows "consistent st \<longleftrightarrow>
    (\<forall>i p. map_of (occupied st) i = Some p \<longleftrightarrow>
       (\<exists>pl. map_of (playersOnline st) p = Some pl \<and> squareIndex pl = Some i))"
proof -
  have d1: "distinct (map fst (occupied st))" and d2: "distinct (map fst (playersOnline st))"
    using assms by (auto simp: wellFormed_def)
  have H: "\<And>p i. heldSquare st p = Some i \<longleftrightarrow>
      (\<exists>pl. map_of (playersOnline st) p = Some pl \<and> squareIndex pl = Some i)"
    by (auto simp: heldSquare_def split: option.splits)
  have S: "\<And>pl k. (case squareIndex pl of None \<Rightarrow> True
                 | Some i \<Rightarrow> map_of (occupied st) i = Some k) \<longleftrightarrow>
       (\<forall>i. squareIndex pl = Some i \<longrightarrow> map_of (occupied st) i = Some k)"
    by (auto split: option.splits)
  show ?thesis
    unfolding consistent_def list_all_alist [OF d1] list_all_alist [OF d2] H S
    by blast
qed

lemma consistent_consMap:
  "wellFormed st \<Longrightarrow>
     consistent st \<longleftrightarrow> consMap (map_of (occupied st)) (map_of (playersOnline st))"
  by (simp add: consistent_iff consMap_def)

lemma wellFormed_entry:
  "wellFormed st \<Longrightarrow> map_of (playersOnline st) p = Some pl \<Longrightarrow> player_id pl = p \<and> p \<noteq> []"
  by (auto simp: wellFormed_def list_all_iff dest!: map_of_SomeD)

lemma presenceSet_map_of: "p \<in> presenceSet st \<longleftrightarrow> map_of (playersOnline st) p \<noteq> None"
  by (simp add: presenceSet_def map_of_eq_None_iff)

lemma wellFormed_card:
  "wellFormed st \<Longrightarrow> card (presenceSet st) = length (playersOnline st)"
  unfolding wellFormed_def presenceSet_def
  by (metis distinct_card length_map set_map)

lemma wellFormed_occupied_card:
  "wellFormed st \<Longrightarrow> card (dom (occupancy st)) = length (occupied st)"
  unfolding wellFormed_def occupancy_def dom_map_of_conv_image_fst
  by (metis distinct_card length_map set_map)

lemma newOnline_simps [simp]:
  "player_id (newOnline s) = player_id s" "squareIndex (newOnline s) = None"
  "levelsCompleted (newOnline s) = levelsCompleted s"
  by (simp_all add: newOnline_def)

lemma ensureOnline_cases:
  assumes "ensureOnline st p = (st1, r)"
  shows "(getPlayerById (players st) p = None \<and> st1 = st \<and> r = None) \<or>
     (\<exists>s q. getPlayerById (players st) p = Some s \<and> map_of (playersOnline st) p = Some q \<and>
        st1 = st \<and> r = Some q) \<or>
     (\<exists>s. getPlayerById (players st) p = Some s \<and> map_of (playersOnline st) p = None \<and>
        st1 = st\<lparr>playersOnline := playersOnline st @ [(p, newOnline s)]\<rparr> \<and>
        r = Some (newOnline s))"
  using assms by (auto simp: ensureOnline_def Let_def split: option.splits)

lemma wellFormed_append:
  assumes "wellFormed st" "map_of (playersOnline st) p = None" "player_id e = p" "p \<noteq> []"
  shows "wellFormed (st\<lparr>playersOnline := playersOnline st @ [(p, e)]\<rparr>)"
  using assms by (auto simp: wellFormed_def map_of_eq_None_iff)

lemma consistent_append:
  assumes "wellFormed st" "consistent st" "map_of (playersOnline st) p = None"
    "player_id e = p" "p \<noteq> []" "squareIndex e = None"
  shows "consistent (st\<lparr>playersOnline := playersOnline st @ [(p, e)]\<rparr>)"
proof -
  have w: "wellFormed (st\<lparr>playersOnline := playersOnline st @ [(p, e)]\<rparr>)"
    using assms by (intro wellFormed_append)
  have "consMap (map_of (occupied st)) ((map_of (playersOnline st))(p \<mapsto> e))"
    using assms consMap_insert consistent_consMap by blast
  then show ?thesis
    unfolding consistent_consMap [OF w]
    by (simp add: map_of_append_new assms(3) del: map_of_append)
qed

lemma inv_ensureOnline:
  assumes "wellFormed st" "consistent st" "p \<noteq> []" "ensureOnline st p = (st1, r)"
  shows "wellFormed st1 \<and> consistent st1"
  using ensureOnline_cases [OF assms(4)] assms(1-3)
  by (auto dest: getPlayerById_Some intro!: wellFormed_append consistent_append)

lemma ensureOnline_lookup:
  "ensureOnline st p = (st1, Some pl) \<Longrightarrow> map_of (playersOnline st1) p = Some pl"
  by (auto dest!: ensureOnline_cases simp: map_of_append_new simp del: map_of_append)

lemma wellFormed_assignSquare:
  assumes "wellFormed st" "map_of (playersOnline st) p = Some pl"
  shows "wellFormed (assignSquare st p pl sq)"
  using assms wellFormed_entry [OF assms]
  by (auto simp: wellFormed_def assignSquare_def distinct_update intro!: list_all_update)

lemma free_square:
  assumes "wellFormed st" "consistent st" "\<not> occupiedAt st sq"
  shows "map_of (occupied st) sq = None"
proof (cases "map_of (occupied st) sq")
  case (Some v)
  from assms(1,2) have "consMap (map_of (occupied st)) (map_of (playersOnline st))"
    by (simp add: consistent_consMap)
  from consMapD1 [OF this Some] obtain pl where "map_of (playersOnline st) v = Some pl" by blast
  from wellFormed_entry [OF assms(1) this] have "v \<noteq> []" by simp
  with Some assms(3) show ?thesis by (simp add: occupiedAt_def)
qed simp

lemma occupiedAt_occupancy:
  assumes "wellFormed st" "consistent st"
  shows "occupiedAt st sq \<longleftrightarrow> occupancy st sq \<noteq> None"
  using free_square [OF assms, of sq]
  by (auto simp: occupiedAt_def occupancy_def split: option.splits)

lemma consistent_assignSquare:
  assumes w: "wellFormed st" and c: "consistent st"
    and p: "map_of (playersOnline st) p = Some pl" and h: "squareIndex pl = None"
    and f: "\<not> occupiedAt st sq"
  shows "consistent (assignSquare st p pl sq)"
proof -
  have w': "wellFormed (assignSquare st p pl sq)" using w p by (rule wellFormed_assignSquare)
  have i: "player_id pl = p" using wellFormed_entry [OF w p] by simp
  have "consMap ((map_of (occupied st))(sq \<mapsto> p))
          ((map_of (playersOnline st))(p \<mapsto> pl\<lparr>squareIndex := Some sq\<rparr>))"
    using c p h free_square [OF w c f] by (intro consMap_assign) (simp_all add: consistent_consMap [OF w])
  then show ?thesis
    unfolding consistent_consMap [OF w']
    by (simp add: assignSquare_def update_conv' i)
qed

lemma assignSquare_maps:
  assumes "wellFormed st" "map_of (playersOnline st) p = Some pl"
  shows "occupancy (assignSquare st p pl sq) = (occupancy st)(sq \<mapsto> p)"
    and "heldSquare (assignSquare st p pl sq) p = Some sq"
    and "q \<noteq> p \<Longrightarrow> heldSquare (assignSquare st p pl sq) q = heldSquare st q"
    and "presenceSet (assignSquare st p pl sq) = presenceSet st"
proof -
  have i: "player_id pl = p" using wellFormed_entry [OF assms] by simp
  have m: "p \<in> fst ` set (playersOnline st)"
    using assms(2) by (metis map_of_eq_None_iff option.distinct(1))
  show "occupancy (assignSquare st p pl sq) = (occupancy st)(sq \<mapsto> p)"
    by (simp add: occupancy_def assignSquare_def update_conv' i)
  show "heldSquare (assignSquare st p pl sq) p = Some sq"
    by (simp add: heldSquare_def assignSquare_def update_conv')
  show "q \<noteq> p \<Longrightarrow> heldSquare (assignSquare st p pl sq) q = heldSquare st q"
    by (simp add: heldSquare_def assignSquare_def update_conv')
  show "presenceSet (assignSquare st p pl sq) = presenceSet st"
    using m by (auto simp: presenceSet_def assignSquare_def dom_update)
qed

lemma creditHolders_fst:
  "fst (creditHolders onl ps) =
     map (\<lambda>(k, p). (k, if squareIndex p \<noteq> None
                         then p\<lparr>levelsCompleted := levelsCompleted p + 1\<rparr> else p)) onl"
  by (induction onl ps rule: creditHolders.induct) (auto split: prod.splits)

lemma completeLevel_fields:
  "currentLevel (completeLevel st) = currentLevel st + 1"
  "squaresCount (completeLevel st) = squaresCount st * 2"
  "occupied (completeLevel st) = []"
  "playersOnline (completeLevel st) = map (\<lambda>(k, p). (k, credited p)) (playersOnline st)"
  "players (completeLevel st) = snd (creditHolders (playersOnline st) (players st))"
  "playersFile (completeLevel st) = players (completeLevel st)"
  using creditHolders_fst [of "playersOnline st" "players st"]
  by (auto simp: completeLevel_def savePlayers_def Let_def credited_def split: prod.splits)

lemma inv_completeLevel:
  assumes "wellFormed st"
  shows "wellFormed (completeLevel st) \<and> consistent (completeLevel st)"
proof -
  have k: "(fst \<circ> (\<lambda>(k, p). (k, credited p))) = fst"
    by (auto simp: fun_eq_iff)
  have d: "map fst (playersOnline (completeLevel st)) = map fst (playersOnline st)"
    by (simp add: completeLevel_fields k)
  have i: "list_all (\<lambda>(k, p). player_id p = k \<and> k \<noteq> []) (playersOnline (completeLevel st))"
    using assms by (auto simp: wellFormed_def completeLevel_fields list_all_iff credited_def)
  have n: "list_all (\<lambda>(k, p). squareIndex p = None) (playersOnline (completeLevel st))"
    by (auto simp: completeLevel_fields list_all_iff credited_def)
  have w: "wellFormed (completeLevel st)"
    using assms i unfolding wellFormed_def d by (simp add: completeLevel_fields)
  have c: "consistent (completeLevel st)"
    using n unfolding consistent_def by (auto simp: completeLevel_fields(3) list_all_iff)
  from w c show ?thesis ..
qed

lemma inv_handleHold:
  assumes "wellFormed st" "consistent st"
  shows "wellFormed (fst (handleHold st b)) \<and> consistent (fst (handleHold st b))"
proof (cases b)
  case InvalidJSON
  with assms show ?thesis by (simp add: handleHold_def)
next
  case (Body d)
  obtain p so where d: "d = (p, so)" by (cases d)
  show ?thesis
  proof (cases "so = None \<or> p = []")
    case True
    with assms Body d show ?thesis by (auto simp: handleHold_def split: option.splits)
  next
    case False
    then obtain sq where so: "so = Some sq" and pne: "p \<noteq> []" by auto
    obtain st1 r where e: "ensureOnline st p = (st1, r)" by (cases "ensureOnline st p")
    from inv_ensureOnline [OF assms pne e] have w1: "wellFormed st1" and c1: "consistent st1"
      by auto
    show ?thesis
    proof (cases r)
      case None
      with Body d so pne e w1 c1 show ?thesis by (simp add: handleHold_def)
    next
      case (Some pl)
      have l: "map_of (playersOnline st1) p = Some pl"
        using e Some by (auto intro: ensureOnline_lookup)
      show ?thesis
        using Body d so pne e Some w1 c1 wellFormed_assignSquare [OF w1 l]
          consistent_assignSquare [OF w1 c1 l] inv_completeLevel
        by (auto simp: handleHold_def Let_def)
    qed
  qed
qed

lemma inv_initial: "wellFormed (initial ps) \<and> consistent (initial ps)"
  by (simp add: wellFormed_def consistent_def initial_def)

lemma inv_handleJoin:
  assumes "wellFormed st" "consistent st"
  shows "wellFormed (fst (handleJoin st b)) \<and> consistent (fst (handleJoin st b))"
proof (cases b)
  case InvalidJSON
  with assms show ?thesis by (simp add: handleJoin_def)
next
  case (Body p)
  show ?thesis
  proof (cases "p = []")
    case True
    with assms Body show ?thesis by (simp add: handleJoin_def)
  next
    case False
    obtain st1 r where e: "ensureOnline st p = (st1, r)" by (cases "ensureOnline st p")
    from inv_ensureOnline [OF assms False e] Body False e show ?thesis
      by (auto simp: handleJoin_def split: option.splits)
  qed
qed

lemma inv_release_step:
  assumes w: "wellFormed st" and c: "consistent st"
    and p: "map_of (playersOnline st) p = Some pl" and h: "squareIndex pl = Some idx"
  defines "st1 \<equiv> st\<lparr>occupied := AList.delete idx (occupied st),
     playersOnline := AList.update p (pl\<lparr>squareIndex := None\<rparr>) (playersOnline st)\<rparr>"
  shows "wellFormed st1 \<and> consistent st1"
proof -
  have w1: "wellFormed st1"
    using w wellFormed_entry [OF w p]
    by (auto simp: st1_def wellFormed_def distinct_update distinct_delete intro!: list_all_update)
  have "consMap ((map_of (occupied st))(idx := None))
          ((map_of (playersOnline st))(p \<mapsto> pl\<lparr>squareIndex := None\<rparr>))"
    using c p h by (intro consMap_release) (simp_all add: consistent_consMap [OF w])
  then have "consistent st1"
    unfolding consistent_consMap [OF w1]
    by (simp add: st1_def update_conv' delete_conv')
  with w1 show ?thesis ..
qed

lemma inv_handleRelease:
  assumes "wellFormed st" "consistent st"
  shows "wellFormed (fst (handleRelease st b)) \<and> consistent (fst (handleRelease st b))"
  using assms inv_release_step [OF assms]
  by (auto simp: handleRelease_def Let_def split: parsed.splits option.splits)

lemma inv_handleRequest:
  assumes "wellFormed st" "consistent st"
  shows "wellFormed (fst (handleRequest st r)) \<and> consistent (fst (handleRequest st r))"
  using assms inv_handleJoin inv_handleHold inv_handleRelease
  by (cases r) (simp_all add: handleBoard_def)

lemma inv_run:
  "wellFormed st \<Longrightarrow> consistent st \<Longrightarrow> wellFormed (run st rs) \<and> consistent (run st rs)"
proof (induction rs arbitrary: st)
  case Nil
  then show ?case by simp
next
  case (Cons r rs)
  from inv_handleRequest [OF Cons.prems, of r] Cons.IH show ?case by simp
qed

lemma inv_bidirectional:
  assumes w: "wellFormed st" and c: "consistent st"
  shows "bidirectional st"
proof -
  from w c have m: "consMap (map_of (occupied st)) (map_of (playersOnline st))"
    by (simp add: consistent_consMap)
  have h: "\<And>p i. p \<in> presenceSet st \<and> heldSquare st p = Some i \<longleftrightarrow>
      (\<exists>pl. map_of (playersOnline st) p = Some pl \<and> squareIndex pl = Some i)"
    by (auto simp: presenceSet_def heldSquare_def split: option.splits dest: map_of_SomeD)
      (metis fst_conv image_eqI map_of_SomeD)
  have a: "\<forall>i p. occupancy st i = Some p \<longleftrightarrow> p \<in> presenceSet st \<and> heldSquare st p = Some i"
    unfolding h occupancy_def using m by (simp add: consMap_def)
  have b: "\<forall>i j p. occupancy st i = Some p \<and> occupancy st j = Some p \<longrightarrow> i = j"
    using a by (metis option.inject)
  show ?thesis
    unfolding bidirectional_def using a b w by (auto simp: wellFormed_def)
qed

lemma full_board_all_hold:
  assumes w: "wellFormed st" and c: "consistent st"
    and f: "length (occupied st) = length (playersOnline st)"
    and p: "p \<in> presenceSet st"
  shows "heldSquare st p \<noteq> None"
proof -
  let ?occ = "occupied st" and ?onl = "playersOnline st"
  have d1: "distinct (map fst ?occ)" and d2: "distinct (map fst ?onl)"
    using w by (simp_all add: wellFormed_def)
  have h: "heldSquare st q = Some i" if "(i, q) \<in> set ?occ" for i q
    using c that by (auto simp: consistent_def list_all_iff)
  have inj: "inj_on snd (set ?occ)"
  proof (rule inj_onI)
    fix x y assume x: "x \<in> set ?occ" and y: "y \<in> set ?occ" and e: "snd x = snd y"
    obtain i q where xq: "x = (i, q)" by (cases x)
    obtain j q' where yq: "y = (j, q')" by (cases y)
    from h x xq have "heldSquare st q = Some i" by simp
    moreover from h y yq e xq have "heldSquare st q = Some j" by simp
    ultimately show "x = y" using xq yq e by simp
  qed
  have "distinct ?occ" using d1 by (rule distinct_map [THEN iffD1, THEN conjunct1])
  then have "card (set ?occ) = length ?occ" by (rule distinct_card)
  with inj have c1: "card (snd ` set ?occ) = length ?occ" by (simp add: card_image)
  let ?H = "{q \<in> presenceSet st. heldSquare st q \<noteq> None}"
  have sub: "snd ` set ?occ \<subseteq> ?H"
  proof
    fix q assume "q \<in> snd ` set ?occ"
    then obtain i where "(i, q) \<in> set ?occ" by auto
    from h [OF this] show "q \<in> ?H"
      by (auto simp: heldSquare_def presenceSet_map_of split: option.splits)
  qed
  have fin: "finite (presenceSet st)" by (simp add: presenceSet_def)
  have c2: "card (presenceSet st) = length ?onl" using w by (rule wellFormed_card)
  have "?H \<subseteq> presenceSet st" by auto
  have "card (snd ` set ?occ) \<le> card ?H" using sub fin by (intro card_mono) auto
  moreover have "card ?H \<le> card (presenceSet st)" using fin by (intro card_mono) auto
  ultimately have "card ?H = card (presenceSet st)" using c1 c2 f by simp
  with fin have "?H = presenceSet st" by (intro card_subset_eq) auto
  with p show ?thesis by auto
qed

section \<open>The handlers case by case\<close>

text \<open>What each handler answers and which parts of the state it leaves alone.\<close>

lemma failures_distinct:
  "distinct [UnknownPlayer, NotOnline, InvalidSquare, AdmissionClosed, AlreadyHolding, SquareTaken]"
  by (simp add: UnknownPlayer_def NotOnline_def InvalidSquare_def AdmissionClosed_def
      AlreadyHolding_def SquareTaken_def)

lemma ensureOnline_unknown:
  "getPlayerById (players st) p = None \<Longrightarrow> ensureOnline st p = (st, None)"
  by (simp add: ensureOnline_def)

lemma ensureOnline_online:
  "getPlayerById (players st) p = Some s \<Longrightarrow> map_of (playersOnline st) p = Some pl \<Longrightarrow>
     ensureOnline st p = (st, Some pl)"
  by (simp add: ensureOnline_def)

lemma ensureOnline_offline:
  "getPlayerById (players st) p = Some s \<Longrightarrow> map_of (playersOnline st) p = None \<Longrightarrow>
     ensureOnline st p =
       (st\<lparr>playersOnline := playersOnline st @ [(p, newOnline s)]\<rparr>, Some (newOnline s))"
  by (simp add: ensureOnline_def Let_def)

lemma ensureOnline_frame:
  assumes "ensureOnline st p = (st1, r)"
  shows "currentLevel st1 = currentLevel st" "squaresCount st1 = squaresCount st"
    "players st1 = players st" "playersFile st1 = playersFile st" "occupied st1 = occupied st"
  using ensureOnline_cases [OF assms] by auto

lemma ensureOnline_squaresCount:
  "ensureOnline st p = (st1, r) \<Longrightarrow> squaresCount st1 = squaresCount st"
  by (auto dest!: ensureOnline_cases)

lemma ensureOnline_presence:
  assumes "ensureOnline st p = (st1, Some pl)"
  shows "presenceSet st1 = insert p (presenceSet st)"
  using ensureOnline_cases [OF assms]
  by (auto simp: presenceSet_def dest!: map_of_SomeD) force+

lemma ensureOnline_entries:
  assumes "ensureOnline st p = (st1, r)" "map_of (playersOnline st) q = Some pl"
  shows "map_of (playersOnline st1) q = Some pl"
  using ensureOnline_cases [OF assms(1)] assms(2)
  by (auto simp: map_of_append_new simp del: map_of_append)

lemma assignSquare_frame:
  "currentLevel (assignSquare st p pl sq) = currentLevel st"
  "squaresCount (assignSquare st p pl sq) = squaresCount st"
  "players (assignSquare st p pl sq) = players st"
  "playersFile (assignSquare st p pl sq) = playersFile st"
  by (simp_all add: assignSquare_def)

lemma handleHold_unknown:
  "p \<noteq> [] \<Longrightarrow> getPlayerById (players st) p = None \<Longrightarrow>
     handleHold st (Body (p, Some sq)) = (st, UnknownPlayer)"
  by (simp add: handleHold_def ensureOnline_unknown UnknownPlayer_def)

lemma handleHold_online:
  assumes "p \<noteq> []" "getPlayerById (players st) p = Some s"
    "map_of (playersOnline st) p = Some pl"
  shows "handleHold st (Body (p, Some sq)) =
    (if sq < 0 \<or> of_nat (squaresCount st) \<le> sq then (st, InvalidSquare)
     else if length (playersOnline st) \<noteq> squaresCount st then (st, AdmissionClosed)
     else if squareIndex pl \<noteq> None then (st, AlreadyHolding)
     else if occupiedAt st sq then (st, SquareTaken)
     else if checkLevelCompletion (assignSquare st p pl sq)
       then (completeLevel (assignSquare st p pl sq),
             HoldSuccess (getBoardState (completeLevel (assignSquare st p pl sq))) True)
       else (assignSquare st p pl sq, HoldSuccess (getBoardState (assignSquare st p pl sq)) False))"
  using assms
  by (simp add: handleHold_def ensureOnline_online [OF assms(2,3)] Let_def InvalidSquare_def
      AdmissionClosed_def AlreadyHolding_def SquareTaken_def)

lemma handleHold_offline:
  assumes "p \<noteq> []" "getPlayerById (players st) p = Some s"
    "map_of (playersOnline st) p = None"
  shows "handleHold st (Body (p, Some sq)) =
    handleHold (st\<lparr>playersOnline := playersOnline st @ [(p, newOnline s)]\<rparr>) (Body (p, Some sq))"
proof -
  let ?st1 = "st\<lparr>playersOnline := playersOnline st @ [(p, newOnline s)]\<rparr>"
  have l: "map_of (playersOnline ?st1) p = Some (newOnline s)"
    using assms(3) by (simp add: map_of_append_new del: map_of_append)
  have g: "getPlayerById (players ?st1) p = Some s" using assms(2) by simp
  show ?thesis
    using assms(1)
    by (simp add: handleHold_def ensureOnline_offline [OF assms(2,3)]
        ensureOnline_online [OF g l])
qed

lemma handleHold_never_NotOnline: "snd (handleHold st b) \<noteq> NotOnline"
  by (auto simp: handleHold_def NotOnline_def Let_def
      split: parsed.splits option.splits prod.splits)

lemma handleHold_in_range:
  assumes "0 \<le> x" "x < of_nat (squaresCount st)"
  shows "snd (handleHold st (Body (p, Some x))) \<noteq> InvalidSquare"
proof (cases "p = []")
  case True
  then show ?thesis by (simp add: handleHold_def InvalidSquare_def)
next
  case False
  obtain st1 r where e: "ensureOnline st p = (st1, r)" by (cases "ensureOnline st p")
  have c: "squaresCount st1 = squaresCount st" using e by (rule ensureOnline_squaresCount)
  show ?thesis
    using False e assms c
    by (auto simp: handleHold_def InvalidSquare_def Let_def split: option.splits)
qed

lemma handleHold_passes:
  assumes "wellFormed st" "consistent st" "p \<noteq> []"
    "getPlayerById (players st) p = Some s" "map_of (playersOnline st) p = Some pl"
    "0 \<le> sq" "sq < of_nat (squaresCount st)" "card (presenceSet st) = squaresCount st"
    "heldSquare st p = None" "occupancy st sq = None"
  shows "handleHold st (Body (p, Some sq)) =
     (if checkLevelCompletion (assignSquare st p pl sq)
      then (completeLevel (assignSquare st p pl sq),
            HoldSuccess (getBoardState (completeLevel (assignSquare st p pl sq))) True)
      else (assignSquare st p pl sq, HoldSuccess (getBoardState (assignSquare st p pl sq)) False))"
proof -
  have "squareIndex pl = None" using assms(5,9) by (simp add: heldSquare_def)
  moreover have "\<not> occupiedAt st sq"
    using assms(10) by (simp add: occupiedAt_occupancy [OF assms(1,2)])
  moreover have "length (playersOnline st) = squaresCount st"
    using assms(8) by (simp add: wellFormed_card [OF assms(1)])
  ultimately show ?thesis
    using assms(6,7) by (simp add: handleHold_online [OF assms(3,4,5)])
qed

lemma handleHold_cases:
  assumes "handleHold st b = (st', r)"
  shows "(\<exists>c m. r = Failure c m \<and> currentLevel st' = currentLevel st \<and>
            squaresCount st' = squaresCount st \<and> players st' = players st \<and>
            playersFile st' = playersFile st \<and> occupied st' = occupied st) \<or>
         (\<exists>p sq st1 player. b = Body (p, Some sq) \<and> p \<noteq> [] \<and>
            ensureOnline st p = (st1, Some player) \<and>
            0 \<le> sq \<and> sq < of_nat (squaresCount st1) \<and>
            length (playersOnline st1) = squaresCount st1 \<and>
            squareIndex player = None \<and> \<not> occupiedAt st1 sq \<and>
            (if checkLevelCompletion (assignSquare st1 p player sq)
             then st' = completeLevel (assignSquare st1 p player sq) \<and>
                  r = HoldSuccess (getBoardState st') True
             else st' = assignSquare st1 p player sq \<and>
                  r = HoldSuccess (getBoardState st') False))"
proof (cases b)
  case InvalidJSON
  with assms show ?thesis by (auto simp: handleHold_def)
next
  case (Body d)
  obtain p so where d: "d = (p, so)" by (cases d)
  show ?thesis
  proof (cases "so = None \<or> p = []")
    case True
    with assms Body d show ?thesis by (auto simp: handleHold_def split: option.splits)
  next
    case False
    then obtain sq where so: "so = Some sq" and pne: "p \<noteq> []" by auto
    obtain st1 r1 where e: "ensureOnline st p = (st1, r1)" by (cases "ensureOnline st p")
    note f = ensureOnline_frame [OF e]
    show ?thesis
    proof (cases r1)
      case None
      with assms Body d so pne e f show ?thesis by (auto simp: handleHold_def)
    next
      case (Some player)
      with assms Body d so pne e f show ?thesis
        by (auto simp: handleHold_def Let_def split: if_splits)
    qed
  qed
qed

lemma handleRelease_frame:
  "currentLevel (fst (handleRelease st b)) = currentLevel st"
  "squaresCount (fst (handleRelease st b)) = squaresCount st"
  "players (fst (handleRelease st b)) = players st"
  "playersFile (fst (handleRelease st b)) = playersFile st"
  "snd (handleRelease st b) \<noteq> HoldSuccess bs lc"
  by (auto simp: handleRelease_def Let_def split: parsed.splits option.splits)

lemma handleJoin_frame:
  "currentLevel (fst (handleJoin st b)) = currentLevel st"
  "squaresCount (fst (handleJoin st b)) = squaresCount st"
  "players (fst (handleJoin st b)) = players st"
  "playersFile (fst (handleJoin st b)) = playersFile st"
  "occupied (fst (handleJoin st b)) = occupied st"
  "snd (handleJoin st b) \<noteq> HoldSuccess bs lc"
  by (auto simp: handleJoin_def split: parsed.splits option.splits prod.splits
      dest: ensureOnline_frame)

lemma release_behaviour:
  assumes "playerId \<noteq> []"
  shows "(playerId \<notin> presenceSet st \<and> playerId \<notin> set objectPrototypeKeys \<longrightarrow>
            handleRelease st (Body playerId) = (st, NotOnline)) \<and>
         (playerId \<in> presenceSet st \<and> heldSquare st playerId = None \<longrightarrow>
            handleRelease st (Body playerId) = (st, Success (getBoardState st))) \<and>
         (\<forall>player idx. map_of (playersOnline st) playerId = Some player \<and>
            squareIndex player = Some idx \<longrightarrow>
            (\<exists>st1. handleRelease st (Body playerId) = (st1, Success (getBoardState st1)) \<and>
               occupancy st1 = (occupancy st)(idx := None) \<and>
               map_of (playersOnline st1) =
                 (map_of (playersOnline st))(playerId \<mapsto> player\<lparr>squareIndex := None\<rparr>) \<and>
               heldSquare st1 playerId = None \<and>
               currentLevel st1 = currentLevel st \<and> squaresCount st1 = squaresCount st \<and>
               players st1 = players st \<and> playersFile st1 = playersFile st))"
  using assms
  by (auto simp: handleRelease_def presenceSet_map_of heldSquare_def occupancy_def NotOnline_def
      Let_def update_conv' delete_conv' split: option.splits)

lemma release_twice:
  assumes "playerId \<noteq> []" "playerId \<in> presenceSet st"
  shows "handleRelease (fst (handleRelease st (Body playerId))) (Body playerId) =
     (fst (handleRelease st (Body playerId)),
      Success (getBoardState (fst (handleRelease st (Body playerId)))))"
  using assms
  by (auto simp: handleRelease_def presenceSet_map_of Let_def update_conv'
      split: option.splits)

lemma creditStored_get:
  "getPlayerById (creditStored j ps) i =
     (if i = j then map_option (\<lambda>s. s\<lparr>levelsCompleted := levelsCompleted s + 1\<rparr>)
                      (getPlayerById ps i)
      else getPlayerById ps i)"
  by (induction ps) auto

lemma creditHolders_get:
  assumes "distinct (map fst onl)" "list_all (\<lambda>(k, p). player_id p = k) onl"
  shows "getPlayerById (snd (creditHolders onl ps)) i =
     (if \<exists>p. (i, p) \<in> set onl \<and> squareIndex p \<noteq> None
      then map_option (\<lambda>s. s\<lparr>levelsCompleted := levelsCompleted s + 1\<rparr>) (getPlayerById ps i)
      else getPlayerById ps i)"
  using assms
proof (induction onl arbitrary: ps)
  case Nil
  then show ?case by simp
next
  case (Cons a rest)
  obtain k p where a: "a = (k, p)" by (cases a)
  from Cons.prems a have d: "distinct (map fst rest)" and n: "k \<notin> fst ` set rest"
    and l: "list_all (\<lambda>(k, p). player_id p = k) rest" and i: "player_id p = k"
    by auto
  note IH = Cons.IH [OF d l]
  show ?case
  proof (cases "squareIndex p \<noteq> None")
    case True
    then have s: "snd (creditHolders (a # rest) ps) = snd (creditHolders rest (creditStored k ps))"
      by (simp add: a i split: prod.splits)
    show ?thesis
      unfolding s IH creditStored_get using n True a by force
  next
    case False
    then have s: "snd (creditHolders (a # rest) ps) = snd (creditHolders rest ps)"
      by (simp add: a split: prod.splits)
    show ?thesis
      unfolding s IH using False a by auto
  qed
qed

section \<open>Example states\<close>

text \<open>The example states, computed.\<close>

lemmas handler_defs = handleJoin_def handleHold_def handleRelease_def handleBoard_def
  ensureOnline_def assignSquare_def occupiedAt_def checkLevelCompletion_def completeLevel_def
  savePlayers_def getBoardState_def view_def newOnline_def initial_def

lemma lobby_value:
  "lobby = (initial demoPlayers)\<lparr>playersOnline :=
     [(''p_a'', newOnline (demoPlayer ''p_a'')), (''p_b'', newOnline (demoPlayer ''p_b'')),
      (''p_c'', newOnline (demoPlayer ''p_c'')), (''p_d'', newOnline (demoPlayer ''p_d''))]\<rparr>"
  unfolding lobby_def demoPlayers_def demoPlayer_def
  by (simp add: handler_defs Let_def)

lemma trio_value:
  "trio = (initial demoPlayers)\<lparr>playersOnline :=
     [(''p_a'', newOnline (demoPlayer ''p_a'')), (''p_b'', newOnline (demoPlayer ''p_b'')),
      (''p_c'', newOnline (demoPlayer ''p_c''))]\<rparr>"
  unfolding trio_def demoPlayers_def demoPlayer_def
  by (simp add: handler_defs Let_def)

lemma lobbyHeld_value:
  "lobbyHeld = lobby\<lparr>occupied := [(0, ''p_a'')],
     playersOnline :=
       [(''p_a'', (newOnline (demoPlayer ''p_a''))\<lparr>squareIndex := Some 0\<rparr>),
        (''p_b'', newOnline (demoPlayer ''p_b'')), (''p_c'', newOnline (demoPlayer ''p_c'')),
        (''p_d'', newOnline (demoPlayer ''p_d''))]\<rparr>"
  unfolding lobbyHeld_def lobby_value demoPlayers_def demoPlayer_def
  by (simp add: handler_defs Let_def)

lemma lobbyHalf_value:
  "lobbyHalf = lobby\<lparr>occupied := [(1 / 2, ''p_a'')],
     playersOnline :=
       [(''p_a'', (newOnline (demoPlayer ''p_a''))\<lparr>squareIndex := Some (1 / 2)\<rparr>),
        (''p_b'', newOnline (demoPlayer ''p_b'')), (''p_c'', newOnline (demoPlayer ''p_c'')),
        (''p_d'', newOnline (demoPlayer ''p_d''))]\<rparr>"
  by (simp add: lobbyHalf_def lobby_value assignSquare_def initial_def demoPlayer_def)

lemma almost_value:
  "almost = lobby\<lparr>occupied := [(0, ''p_a''), (1, ''p_b''), (2, ''p_c'')],
     playersOnline :=
       [(''p_a'', (newOnline (demoPlayer ''p_a''))\<lparr>squareIndex := Some 0\<rparr>),
        (''p_b'', (newOnline (demoPlayer ''p_b''))\<lparr>squareIndex := Some 1\<rparr>),
        (''p_c'', (newOnline (demoPlayer ''p_c''))\<lparr>squareIndex := Some 2\<rparr>),
        (''p_d'', newOnline (demoPlayer ''p_d''))]\<rparr>"
  unfolding almost_def lobby_value demoPlayers_def demoPlayer_def
  by (simp add: handler_defs Let_def)

lemma nextLevel_value:
  "nextLevel = \<lparr>players = map (\<lambda>s. s\<lparr>levelsCompleted := 1\<rparr>) demoPlayers,
     playersFile = map (\<lambda>s. s\<lparr>levelsCompleted := 1\<rparr>) demoPlayers,
     currentLevel = 2, squaresCount = 8, occupied = [],
     playersOnline = map (\<lambda>i. (i, (newOnline (demoPlayer i))\<lparr>levelsCompleted := 1\<rparr>))
       [''p_a'', ''p_b'', ''p_c'', ''p_d'']\<rparr>"
  unfolding nextLevel_def almost_value lobby_value demoPlayers_def demoPlayer_def
  by (simp add: handler_defs Let_def)

lemma veteranLobby_value:
  "veteranLobby = (initial (map (\<lambda>s. s\<lparr>levelsCompleted := 5\<rparr>) demoPlayers))\<lparr>playersOnline :=
     map (\<lambda>i. (i, (newOnline (demoPlayer i))\<lparr>levelsCompleted := 5\<rparr>))
       [''p_a'', ''p_b'', ''p_c'', ''p_d'']\<rparr>"
  unfolding veteranLobby_def demoPlayers_def demoPlayer_def
  by (simp add: handler_defs Let_def)

lemma inv_lobby: "wellFormed lobby \<and> consistent lobby"
  unfolding lobby_def using inv_run inv_initial by blast

lemma inv_trio: "wellFormed trio \<and> consistent trio"
  unfolding trio_def using inv_run inv_initial by blast

lemma inv_lobbyHeld: "wellFormed lobbyHeld \<and> consistent lobbyHeld"
  unfolding lobbyHeld_def using inv_handleHold inv_lobby by blast

lemma inv_almost: "wellFormed almost \<and> consistent almost"
  unfolding almost_def using inv_run inv_lobby by blast

lemma almost_hold:
  "handleHold almost (Body (''p_d'', Some 3)) =
     (nextLevel, HoldSuccess (getBoardState nextLevel) True)"
  unfolding nextLevel_def
  unfolding almost_value lobby_value demoPlayers_def demoPlayer_def
  by (simp add: handler_defs Let_def)

lemma demo_stored:
  "getPlayerById (players trio) ''p_a'' = Some (demoPlayer ''p_a'')"
  "getPlayerById (players lobby) ''p_a'' = Some (demoPlayer ''p_a'')"
  "getPlayerById (players lobbyHeld) ''p_a'' = Some (demoPlayer ''p_a'')"
  "getPlayerById (players lobbyHeld) ''p_b'' = Some (demoPlayer ''p_b'')"
  by (simp_all add: lobbyHeld_value trio_value lobby_value initial_def demoPlayers_def
      demoPlayer_def)

lemma demo_online:
  "map_of (playersOnline trio) ''p_a'' = Some (newOnline (demoPlayer ''p_a''))"
  "map_of (playersOnline lobby) ''p_a'' = Some (newOnline (demoPlayer ''p_a''))"
  "map_of (playersOnline lobbyHeld) ''p_a'' =
     Some ((newOnline (demoPlayer ''p_a''))\<lparr>squareIndex := Some 0\<rparr>)"
  "map_of (playersOnline lobbyHeld) ''p_b'' = Some (newOnline (demoPlayer ''p_b''))"
  by (simp_all add: lobbyHeld_value trio_value lobby_value)

lemma demo_occupancy:
  "occupancy lobby 0 = None" "occupancy lobbyHeld 0 = Some ''p_a''"
  by (simp_all add: occupancy_def lobbyHeld_value lobby_value initial_def)

lemma demo_counts:
  "squaresCount trio = 4" "squaresCount lobby = 4" "squaresCount lobbyHeld = 4"
  "length (playersOnline trio) = 3" "length (playersOnline lobby) = 4"
  "length (playersOnline lobbyHeld) = 4"
  by (simp_all add: lobbyHeld_value trio_value lobby_value initial_def)

lemma half_not_int: "(1 / 2 :: rat) \<notin> \<int>"
proof
  assume "(1 / 2 :: rat) \<in> \<int>"
  then obtain z where "(1 / 2 :: rat) = of_int z" by (rule Ints_cases)
  then have "(of_int (2 * z) :: rat) = of_int 1" by simp
  then have "2 * z = 1" by (simp only: of_int_eq_iff)
  then show False by presburger
qed

section \<open>When a level is completed\<close>

text \<open>
  Claim C1. A hold that succeeds reports \<^verbatim>\<open>levelCompleted\<close>, and runs \<^verbatim>\<open>completeLevel\<close>,
  exactly when, in the state in which the caller has just been given the square, the
  number of occupied squares and the number of players in the Presence Set both equal
  \<^verbatim>\<open>squaresCount\<close>; it never does while an online player holds no square. Completion is
  evaluated nowhere else: every request either is such a hold, which raises the level by
  one, or leaves the level, the number of squares and the stored players as they are; a
  release in particular never completes a level.
\<close>

theorem completion_iff_full:
  assumes "wellFormed st" "consistent st"
  shows
    "(\<forall>st' b lc. handleHold st (Body (playerId, Some sq)) = (st', HoldSuccess b lc) \<longrightarrow>
        (\<exists>st1 player. ensureOnline st playerId = (st1, Some player) \<and>
           (let st2 = assignSquare st1 playerId player sq
            in occupancy st2 sq = Some playerId \<and>
               lc = (card (dom (occupancy st2)) = squaresCount st2 \<and>
                     card (presenceSet st2) = squaresCount st2) \<and>
               (lc \<longrightarrow> (\<forall>p \<in> presenceSet st2. heldSquare st2 p \<noteq> None)) \<and>
               st' = (if lc then completeLevel st2 else st2)))) \<and>
     (\<forall>r. (\<exists>b. snd (handleRequest st r) = HoldSuccess b True \<and>
               currentLevel (fst (handleRequest st r)) = currentLevel st + 1) \<or>
          ((\<forall>b. snd (handleRequest st r) \<noteq> HoldSuccess b True) \<and>
           currentLevel (fst (handleRequest st r)) = currentLevel st \<and>
           squaresCount (fst (handleRequest st r)) = squaresCount st \<and>
           players (fst (handleRequest st r)) = players st)) \<and>
     (\<forall>body b lc. snd (handleRelease st body) \<noteq> HoldSuccess b lc \<and>
        currentLevel (fst (handleRelease st body)) = currentLevel st \<and>
        squaresCount (fst (handleRelease st body)) = squaresCount st \<and>
        players (fst (handleRelease st body)) = players st)"
proof -
  have A: "\<exists>st1 player. ensureOnline st playerId = (st1, Some player) \<and>
           (let st2 = assignSquare st1 playerId player sq
            in occupancy st2 sq = Some playerId \<and>
               lc = (card (dom (occupancy st2)) = squaresCount st2 \<and>
                     card (presenceSet st2) = squaresCount st2) \<and>
               (lc \<longrightarrow> (\<forall>p \<in> presenceSet st2. heldSquare st2 p \<noteq> None)) \<and>
               st' = (if lc then completeLevel st2 else st2))"
    if h: "handleHold st (Body (playerId, Some sq)) = (st', HoldSuccess b lc)" for st' b lc
  proof -
    from handleHold_cases [OF h] obtain st1 player where
      pne: "playerId \<noteq> []" and e: "ensureOnline st playerId = (st1, Some player)"
      and hn: "squareIndex player = None" and fr: "\<not> occupiedAt st1 sq"
      and c: "if checkLevelCompletion (assignSquare st1 playerId player sq)
             then st' = completeLevel (assignSquare st1 playerId player sq) \<and>
                  HoldSuccess b lc = HoldSuccess (getBoardState st') True
             else st' = assignSquare st1 playerId player sq \<and>
                  HoldSuccess b lc = HoldSuccess (getBoardState st') False"
      by auto
    let ?st2 = "assignSquare st1 playerId player sq"
    from inv_ensureOnline [OF assms pne e] have w1: "wellFormed st1" and c1: "consistent st1"
      by simp_all
    have l: "map_of (playersOnline st1) playerId = Some player"
      using e by (rule ensureOnline_lookup)
    have w2: "wellFormed ?st2" using w1 l by (rule wellFormed_assignSquare)
    have o: "occupancy ?st2 sq = Some playerId"
      by (simp add: assignSquare_maps(1) [OF w1 l])
    have k: "checkLevelCompletion ?st2 =
        (card (dom (occupancy ?st2)) = squaresCount ?st2 \<and>
         card (presenceSet ?st2) = squaresCount ?st2)"
      by (simp add: checkLevelCompletion_def wellFormed_occupied_card [OF w2]
          wellFormed_card [OF w2])
    have c2: "consistent ?st2" using w1 c1 l hn fr by (rule consistent_assignSquare)
    have a: "\<forall>p \<in> presenceSet ?st2. heldSquare ?st2 p \<noteq> None"
      if "checkLevelCompletion ?st2"
      using that full_board_all_hold [OF w2 c2]
      by (simp add: checkLevelCompletion_def Let_def)
    from c have "lc = checkLevelCompletion ?st2"
      and "st' = (if lc then completeLevel ?st2 else ?st2)"
      by (auto split: if_splits)
    with e o k a show ?thesis unfolding Let_def by blast
  qed
  have H: "(\<exists>b. snd (handleHold st body) = HoldSuccess b True \<and>
               currentLevel (fst (handleHold st body)) = currentLevel st + 1) \<or>
          ((\<forall>b. snd (handleHold st body) \<noteq> HoldSuccess b True) \<and>
           currentLevel (fst (handleHold st body)) = currentLevel st \<and>
           squaresCount (fst (handleHold st body)) = squaresCount st \<and>
           players (fst (handleHold st body)) = players st)" for body
  proof -
    obtain st' r where h: "handleHold st body = (st', r)" by (cases "handleHold st body")
    from handleHold_cases [OF h] show ?thesis
    proof
      assume "\<exists>c m. r = Failure c m \<and> currentLevel st' = currentLevel st \<and>
            squaresCount st' = squaresCount st \<and> players st' = players st \<and>
            playersFile st' = playersFile st \<and> occupied st' = occupied st"
      then show ?thesis unfolding h by auto
    next
      assume "\<exists>p sq st1 player. body = Body (p, Some sq) \<and> p \<noteq> [] \<and>
            ensureOnline st p = (st1, Some player) \<and>
            0 \<le> sq \<and> sq < of_nat (squaresCount st1) \<and>
            length (playersOnline st1) = squaresCount st1 \<and>
            squareIndex player = None \<and> \<not> occupiedAt st1 sq \<and>
            (if checkLevelCompletion (assignSquare st1 p player sq)
             then st' = completeLevel (assignSquare st1 p player sq) \<and>
                  r = HoldSuccess (getBoardState st') True
             else st' = assignSquare st1 p player sq \<and>
                  r = HoldSuccess (getBoardState st') False)"
      then obtain p sq st1 player where e: "ensureOnline st p = (st1, Some player)"
        and c: "if checkLevelCompletion (assignSquare st1 p player sq)
             then st' = completeLevel (assignSquare st1 p player sq) \<and>
                  r = HoldSuccess (getBoardState st') True
             else st' = assignSquare st1 p player sq \<and>
                  r = HoldSuccess (getBoardState st') False"
        by blast
      note f = ensureOnline_frame [OF e]
      show ?thesis
      proof (cases "checkLevelCompletion (assignSquare st1 p player sq)")
        case True
        with c f show ?thesis
          unfolding h by (simp add: completeLevel_fields assignSquare_frame)
      next
        case False
        with c f show ?thesis
          unfolding h by (simp add: assignSquare_frame)
      qed
    qed
  qed
  have B: "(\<exists>b. snd (handleRequest st r) = HoldSuccess b True \<and>
               currentLevel (fst (handleRequest st r)) = currentLevel st + 1) \<or>
          ((\<forall>b. snd (handleRequest st r) \<noteq> HoldSuccess b True) \<and>
           currentLevel (fst (handleRequest st r)) = currentLevel st \<and>
           squaresCount (fst (handleRequest st r)) = squaresCount st \<and>
           players (fst (handleRequest st r)) = players st)" for r
  proof (cases r)
    case (Hold body)
    with H [of body] show ?thesis by simp
  qed (simp_all add: handleJoin_frame handleRelease_frame handleBoard_def)
  from A B show ?thesis
    by (intro conjI allI impI) (simp_all add: handleRelease_frame)
qed

theorem completion_iff_full_witness:
  "wellFormed almost \<and> consistent almost \<and> wellFormed lobby \<and> consistent lobby \<and>
   handleHold almost (Body (''p_d'', Some 3)) =
     (nextLevel, HoldSuccess (getBoardState nextLevel) True) \<and>
   currentLevel almost = 1 \<and> currentLevel nextLevel = 2 \<and>
   (\<exists>st2. occupancy st2 3 = Some ''p_d'' \<and> card (dom (occupancy st2)) = squaresCount st2 \<and>
      card (presenceSet st2) = squaresCount st2 \<and>
      (\<forall>p \<in> presenceSet st2. heldSquare st2 p \<noteq> None) \<and> nextLevel = completeLevel st2) \<and>
   handleHold lobby (Body (''p_a'', Some 0)) =
     (lobbyHeld, HoldSuccess (getBoardState lobbyHeld) False) \<and>
   \<not> (card (dom (occupancy lobbyHeld)) = squaresCount lobbyHeld \<and>
      card (presenceSet lobbyHeld) = squaresCount lobbyHeld) \<and>
   currentLevel (fst (handleRelease almost (Body ''p_a''))) = currentLevel almost"
proof -
  note wa = inv_almost [THEN conjunct1] and ca = inv_almost [THEN conjunct2]
    and wl = inv_lobby [THEN conjunct1] and cl = inv_lobby [THEN conjunct2]
  note ta = completion_iff_full [OF wa ca, of "''p_d''" 3]
    and tl = completion_iff_full [OF wl cl, of "''p_a''" 0]
  from ta [THEN conjunct1, rule_format, OF almost_hold]
  obtain st1 player where
    "let st2 = assignSquare st1 ''p_d'' player 3
     in occupancy st2 3 = Some ''p_d'' \<and>
        True = (card (dom (occupancy st2)) = squaresCount st2 \<and>
                card (presenceSet st2) = squaresCount st2) \<and>
        (True \<longrightarrow> (\<forall>p \<in> presenceSet st2. heldSquare st2 p \<noteq> None)) \<and>
        nextLevel = (if True then completeLevel st2 else st2)"
    by blast
  then have 1: "\<exists>st2. occupancy st2 3 = Some ''p_d'' \<and>
      card (dom (occupancy st2)) = squaresCount st2 \<and>
      card (presenceSet st2) = squaresCount st2 \<and>
      (\<forall>p \<in> presenceSet st2. heldSquare st2 p \<noteq> None) \<and> nextLevel = completeLevel st2"
    unfolding Let_def by auto
  have lh: "handleHold lobby (Body (''p_a'', Some 0)) =
      (lobbyHeld, HoldSuccess (getBoardState lobbyHeld) False)"
    unfolding lobbyHeld_def lobby_value demoPlayers_def demoPlayer_def
    by (simp add: handler_defs Let_def)
  from tl [THEN conjunct1, rule_format, OF lh]
  obtain st1' player' where e: "ensureOnline lobby ''p_a'' = (st1', Some player')"
    and "let st2 = assignSquare st1' ''p_a'' player' 0
     in occupancy st2 0 = Some ''p_a'' \<and>
        False = (card (dom (occupancy st2)) = squaresCount st2 \<and>
                card (presenceSet st2) = squaresCount st2) \<and>
        (False \<longrightarrow> (\<forall>p \<in> presenceSet st2. heldSquare st2 p \<noteq> None)) \<and>
        lobbyHeld = (if False then completeLevel st2 else st2)"
    by blast
  then have 2: "\<not> (card (dom (occupancy lobbyHeld)) = squaresCount lobbyHeld \<and>
      card (presenceSet lobbyHeld) = squaresCount lobbyHeld)"
    unfolding Let_def by auto
  from ta [THEN conjunct2, THEN conjunct2, rule_format, of "Body ''p_a''"]
  have 3: "currentLevel (fst (handleRelease almost (Body ''p_a''))) = currentLevel almost"
    by blast
  have 4: "currentLevel almost = 1" "currentLevel nextLevel = 2"
    by (simp_all add: almost_value lobby_value initial_def nextLevel_value)
  from wa ca wl cl almost_hold 1 lh 2 3 4 show ?thesis by (intro conjI)
qed

section \<open>What a completion does\<close>

text \<open>
  Claim C2. Whenever a hold triggers completion: the level is one higher and the number of
  squares is doubled; no square is occupied and no online player holds one; the players who
  held a square at that moment, who are all the online players, have their counter
  \<^verbatim>\<open>levelsCompleted\<close> raised by exactly one, in their online entry and in their stored
  record, and every other stored record is unchanged; the file of stored players has been
  written with the new counters when the response is produced; and the response carries
  \<^verbatim>\<open>levelCompleted = true\<close> with the board after the transition.
\<close>

theorem completion_effects:
  assumes "wellFormed st" "consistent st"
    "handleHold st (Body (playerId, Some sq)) = (st', HoldSuccess b lc)" "lc"
  shows "currentLevel st' = currentLevel st + 1 \<and>
    squaresCount st' = 2 * squaresCount st \<and>
    occupied st' = [] \<and>
    presenceSet st' = insert playerId (presenceSet st) \<and>
    (\<forall>p \<in> presenceSet st'. heldSquare st' p = None) \<and>
    (\<forall>p \<in> presenceSet st'. p = playerId \<or> heldSquare st p \<noteq> None) \<and>
    (\<forall>p pl. map_of (playersOnline st) p = Some pl \<longrightarrow>
       map_of (playersOnline st') p =
         Some (pl\<lparr>levelsCompleted := levelsCompleted pl + 1, squareIndex := None\<rparr>)) \<and>
    (playerId \<notin> presenceSet st \<longrightarrow>
       (\<exists>s. getPlayerById (players st) playerId = Some s \<and>
          map_of (playersOnline st') playerId =
            Some ((newOnline s)\<lparr>levelsCompleted := levelsCompleted s + 1\<rparr>))) \<and>
    (\<forall>i. getPlayerById (players st') i =
       map_option (\<lambda>s. if i \<in> presenceSet st'
                        then s\<lparr>levelsCompleted := levelsCompleted s + 1\<rparr> else s)
         (getPlayerById (players st) i)) \<and>
    playersFile st' = players st' \<and>
    b = getBoardState st' \<and> board_level b = currentLevel st + 1 \<and>
    board_squaresCount b = 2 * squaresCount st \<and> board_occupied b = []"
proof -
  from handleHold_cases [OF assms(3)] assms(4) obtain st1 player where
    pne: "playerId \<noteq> []" and e: "ensureOnline st playerId = (st1, Some player)"
    and hn: "squareIndex player = None" and fr: "\<not> occupiedAt st1 sq"
    and k: "checkLevelCompletion (assignSquare st1 playerId player sq)"
    and st': "st' = completeLevel (assignSquare st1 playerId player sq)"
    and b: "b = getBoardState st'"
    by (auto split: if_splits)
  let ?st2 = "assignSquare st1 playerId player sq"
  note f1 = ensureOnline_frame [OF e]
  from inv_ensureOnline [OF assms(1,2) pne e] have w1: "wellFormed st1" and c1: "consistent st1"
    by simp_all
  have l: "map_of (playersOnline st1) playerId = Some player"
    using e by (rule ensureOnline_lookup)
  have w2: "wellFormed ?st2" using w1 l by (rule wellFormed_assignSquare)
  have c2: "consistent ?st2" using w1 c1 l hn fr by (rule consistent_assignSquare)
  have ah: "heldSquare ?st2 p \<noteq> None" if "p \<in> presenceSet ?st2" for p
    using k full_board_all_hold [OF w2 c2 _ that] by (simp add: checkLevelCompletion_def Let_def)
  have p1: "presenceSet st1 = insert playerId (presenceSet st)"
    using e by (rule ensureOnline_presence)
  have p2: "presenceSet ?st2 = presenceSet st1" by (rule assignSquare_maps(4) [OF w1 l])
  have on': "playersOnline st' = map (\<lambda>(k, p). (k, credited p)) (playersOnline ?st2)"
    unfolding st' by (rule completeLevel_fields(4))
  have m': "map_of (playersOnline st') p = map_option credited (map_of (playersOnline ?st2) p)"
    for p unfolding on' by (simp add: map_of_map)
  have m2: "map_of (playersOnline ?st2) =
      (map_of (playersOnline st1))(playerId \<mapsto> player\<lparr>squareIndex := Some sq\<rparr>)"
    by (simp add: assignSquare_def update_conv')
  have p3: "presenceSet st' = presenceSet ?st2"
    unfolding presenceSet_def on' by force
  have 1: "currentLevel st' = currentLevel st + 1" "squaresCount st' = 2 * squaresCount st"
    "occupied st' = []" "playersFile st' = players st'"
    unfolding st' by (simp_all add: completeLevel_fields assignSquare_frame f1)
  have 4: "presenceSet st' = insert playerId (presenceSet st)"
    unfolding p3 p2 p1 ..
  have 5: "\<forall>p \<in> presenceSet st'. heldSquare st' p = None"
    by (auto simp: heldSquare_def m' credited_def split: option.splits)
  have 6: "\<forall>p \<in> presenceSet st'. p = playerId \<or> heldSquare st p \<noteq> None"
  proof (intro ballI)
    fix p assume "p \<in> presenceSet st'"
    then have i2: "p \<in> presenceSet ?st2" by (simp add: p3)
    show "p = playerId \<or> heldSquare st p \<noteq> None"
    proof (cases "p = playerId")
      case False
      from i2 False have "p \<in> presenceSet st" by (simp add: p2 p1)
      then obtain pl where pl: "map_of (playersOnline st) p = Some pl"
        by (auto simp: presenceSet_map_of)
      from ensureOnline_entries [OF e pl] False
      have "heldSquare ?st2 p = heldSquare st p"
        by (simp add: heldSquare_def m2 pl)
      with ah [OF i2] show ?thesis by simp
    qed simp
  qed
  have 7: "map_of (playersOnline st') p =
      Some (pl\<lparr>levelsCompleted := levelsCompleted pl + 1, squareIndex := None\<rparr>)"
    if pl: "map_of (playersOnline st) p = Some pl" for p pl
  proof (cases "p = playerId")
    case True
    from ensureOnline_entries [OF e pl] l True have "player = pl" by simp
    then show ?thesis unfolding m' m2 using True by (simp add: credited_def)
  next
    case False
    have i: "p \<in> presenceSet ?st2"
      using pl by (simp add: p2 p1 presenceSet_map_of)
    have e2: "map_of (playersOnline ?st2) p = Some pl"
      using ensureOnline_entries [OF e pl] False by (simp add: m2)
    with ah [OF i] have "squareIndex pl \<noteq> None" by (simp add: heldSquare_def)
    then show ?thesis unfolding m' e2 by (simp add: credited_def)
  qed
  have 8: "\<exists>s. getPlayerById (players st) playerId = Some s \<and>
          map_of (playersOnline st') playerId =
            Some ((newOnline s)\<lparr>levelsCompleted := levelsCompleted s + 1\<rparr>)"
    if "playerId \<notin> presenceSet st"
  proof -
    from that have "map_of (playersOnline st) playerId = None" by (simp add: presenceSet_map_of)
    with ensureOnline_cases [OF e] obtain s where
      s: "getPlayerById (players st) playerId = Some s" and "player = newOnline s"
      by auto
    then have "map_of (playersOnline st') playerId =
        Some ((newOnline s)\<lparr>levelsCompleted := levelsCompleted s + 1\<rparr>)"
      unfolding m' m2 by (simp add: credited_def newOnline_def)
    with s show ?thesis by blast
  qed
  have 9: "getPlayerById (players st') i =
       map_option (\<lambda>s. if i \<in> presenceSet st'
                        then s\<lparr>levelsCompleted := levelsCompleted s + 1\<rparr> else s)
         (getPlayerById (players st) i)" for i
  proof -
    have d: "distinct (map fst (playersOnline ?st2))"
      and ll: "list_all (\<lambda>(k, p). player_id p = k) (playersOnline ?st2)"
      using w2 by (auto simp: wellFormed_def list_all_iff)
    have h: "(\<exists>p. (i, p) \<in> set (playersOnline ?st2) \<and> squareIndex p \<noteq> None) \<longleftrightarrow>
        i \<in> presenceSet st'"
    proof
      assume "\<exists>p. (i, p) \<in> set (playersOnline ?st2) \<and> squareIndex p \<noteq> None"
      then have "i \<in> presenceSet ?st2" unfolding presenceSet_def by force
      then show "i \<in> presenceSet st'" by (simp only: p3)
    next
      assume "i \<in> presenceSet st'"
      then have i2: "i \<in> presenceSet ?st2" by (simp add: p3)
      from ah [OF this] obtain p where "map_of (playersOnline ?st2) i = Some p"
        and "squareIndex p \<noteq> None"
        by (auto simp: heldSquare_def split: option.splits)
      then show "\<exists>p. (i, p) \<in> set (playersOnline ?st2) \<and> squareIndex p \<noteq> None"
        by (blast dest: map_of_SomeD)
    qed
    have ps: "players st' = snd (creditHolders (playersOnline ?st2) (players st))"
      unfolding st' by (simp add: completeLevel_fields assignSquare_frame f1)
    have "getPlayerById (players st') i =
        (if \<exists>p. (i, p) \<in> set (playersOnline ?st2) \<and> squareIndex p \<noteq> None
         then map_option (\<lambda>s. s\<lparr>levelsCompleted := levelsCompleted s + 1\<rparr>)
                (getPlayerById (players st) i)
         else getPlayerById (players st) i)"
      unfolding ps by (rule creditHolders_get [OF d ll])
    also have "\<dots> =
        (if i \<in> presenceSet st'
         then map_option (\<lambda>s. s\<lparr>levelsCompleted := levelsCompleted s + 1\<rparr>)
                (getPlayerById (players st) i)
         else getPlayerById (players st) i)"
      by (simp only: h)
    also have "\<dots> = map_option (\<lambda>s. if i \<in> presenceSet st'
                        then s\<lparr>levelsCompleted := levelsCompleted s + 1\<rparr> else s)
         (getPlayerById (players st) i)"
      by (cases "i \<in> presenceSet st'"; cases "getPlayerById (players st) i"; simp)
    finally show ?thesis .
  qed
  have 10: "board_level b = currentLevel st + 1" "board_squaresCount b = 2 * squaresCount st"
    "board_occupied b = []"
    unfolding b by (simp_all add: getBoardState_def 1)
  from 1 4 5 6 7 8 9 b 10 show ?thesis by (intro conjI allI impI) blast+
qed

theorem completion_effects_witness:
  "wellFormed almost \<and> consistent almost \<and>
   handleHold almost (Body (''p_d'', Some 3)) =
     (nextLevel, HoldSuccess (getBoardState nextLevel) True) \<and>
   currentLevel nextLevel = currentLevel almost + 1 \<and>
   squaresCount nextLevel = 2 * squaresCount almost \<and> squaresCount almost = 4 \<and>
   occupied nextLevel = [] \<and> occupied almost \<noteq> [] \<and>
   ''p_a'' \<in> presenceSet nextLevel \<and> heldSquare almost ''p_a'' = Some 0 \<and>
   heldSquare nextLevel ''p_a'' = None \<and>
   map_of (playersOnline nextLevel) ''p_a'' =
     Some ((newOnline (demoPlayer ''p_a''))\<lparr>levelsCompleted := 1\<rparr>) \<and>
   getPlayerById (players almost) ''p_a'' = Some (demoPlayer ''p_a'') \<and>
   getPlayerById (players nextLevel) ''p_a'' = Some ((demoPlayer ''p_a'')\<lparr>levelsCompleted := 1\<rparr>) \<and>
   playersFile nextLevel = players nextLevel \<and>
   board_level (getBoardState nextLevel) = 2"
proof -
  note wa = inv_almost [THEN conjunct1] and ca = inv_almost [THEN conjunct2]
  note t = completion_effects [OF wa ca almost_hold TrueI]
  have pa: "''p_a'' \<in> presenceSet nextLevel"
    by (simp add: nextLevel_value presenceSet_def)
  have ea: "map_of (playersOnline almost) ''p_a'' =
      Some ((newOnline (demoPlayer ''p_a''))\<lparr>squareIndex := Some 0\<rparr>)"
    by (simp add: almost_value)
  have ha: "heldSquare almost ''p_a'' = Some 0"
    by (simp add: heldSquare_def ea)
  have ga: "getPlayerById (players almost) ''p_a'' = Some (demoPlayer ''p_a'')"
    by (simp add: almost_value lobby_value initial_def demoPlayers_def demoPlayer_def)
  have 1: "currentLevel nextLevel = currentLevel almost + 1"
    using t by (elim conjE)
  have 2: "squaresCount nextLevel = 2 * squaresCount almost"
    using t by (elim conjE)
  have 3: "occupied nextLevel = []"
    using t by (elim conjE)
  have "\<forall>p \<in> presenceSet nextLevel. heldSquare nextLevel p = None"
    using t by (elim conjE)
  with pa have 4: "heldSquare nextLevel ''p_a'' = None" by blast
  have "\<forall>p pl. map_of (playersOnline almost) p = Some pl \<longrightarrow>
       map_of (playersOnline nextLevel) p =
         Some (pl\<lparr>levelsCompleted := levelsCompleted pl + 1, squareIndex := None\<rparr>)"
    using t by (elim conjE)
  from this [rule_format, OF ea]
  have 5: "map_of (playersOnline nextLevel) ''p_a'' =
      Some ((newOnline (demoPlayer ''p_a''))\<lparr>levelsCompleted := 1\<rparr>)"
    by (simp add: newOnline_def demoPlayer_def)
  have "\<forall>i. getPlayerById (players nextLevel) i =
       map_option (\<lambda>s. if i \<in> presenceSet nextLevel
                        then s\<lparr>levelsCompleted := levelsCompleted s + 1\<rparr> else s)
         (getPlayerById (players almost) i)"
    using t by (elim conjE)
  from this [rule_format, of "''p_a''"] pa ga
  have 6: "getPlayerById (players nextLevel) ''p_a'' =
      Some ((demoPlayer ''p_a'')\<lparr>levelsCompleted := 1\<rparr>)"
    by (simp add: demoPlayer_def)
  have 7: "playersFile nextLevel = players nextLevel"
    using t by (elim conjE)
  have "board_level (getBoardState nextLevel) = currentLevel almost + 1"
    using t by (elim conjE)
  then have 8: "board_level (getBoardState nextLevel) = 2"
    by (simp add: almost_value lobby_value initial_def)
  have 9: "squaresCount almost = 4" "occupied almost \<noteq> []"
    by (simp_all add: almost_value lobby_value initial_def)
  from wa ca almost_hold 1 2 3 4 5 6 7 8 9 pa ha ga show ?thesis by (intro conjI)
qed

section \<open>Hold by a player who is not online\<close>

text \<open>
  Claim C3, as amended. The specification lets \<open>hold\<close> fail with \<open>NotOnline\<close> for every
  player outside the Presence Set. \<^verbatim>\<open>handleHold\<close> never answers \<open>NotOnline\<close>: its first
  check after the parameters is \<^verbatim>\<open>ensureOnline\<close>. For an identifier that the Player
  Directory does not hold the call fails with \<open>UnknownPlayer\<close>, whatever the square index,
  and leaves the whole state unchanged; a player of the directory who is not online is
  added to the Presence Set by the call.
\<close>

theorem hold_unknown_player:
  assumes "playerId \<noteq> []" "playerId \<notin> presenceSet st"
  shows "(getPlayerById (players st) playerId = None \<longrightarrow>
            handleHold st (Body (playerId, Some sq)) = (st, UnknownPlayer)) \<and>
         snd (handleHold st (Body (playerId, Some sq))) \<noteq> NotOnline \<and>
         (getPlayerById (players st) playerId \<noteq> None \<longrightarrow>
            playerId \<in> presenceSet (fst (handleHold st (Body (playerId, Some sq)))))"
proof -
  have n: "map_of (playersOnline st) playerId = None"
    using assms(2) by (simp add: presenceSet_map_of)
  have "playerId \<in> presenceSet (fst (handleHold st (Body (playerId, Some sq))))"
    if g: "getPlayerById (players st) playerId = Some s" for s
  proof -
    obtain st1 r where e: "ensureOnline st playerId = (st1, r)"
      by (cases "ensureOnline st playerId")
    with ensureOnline_offline [OF g n]
    have st1: "st1 = st\<lparr>playersOnline := playersOnline st @ [(playerId, newOnline s)]\<rparr>"
      and r: "r = Some (newOnline s)" by simp_all
    have keys: "map fst (playersOnline
          (assignSquare st1 playerId (newOnline s) sq)) = map fst (playersOnline st1)"
      by (simp add: assignSquare_def update_keys st1)
    have p1: "playerId \<in> presenceSet st1" by (simp add: st1 presenceSet_def)
    have p2: "playerId \<in> presenceSet (assignSquare st1 playerId (newOnline s) sq)"
      using p1 keys by (metis presenceSet_def set_map)
    have p3: "playerId \<in> presenceSet (completeLevel (assignSquare st1 playerId (newOnline s) sq))"
      using p2 by (force simp: presenceSet_def completeLevel_fields)
    show ?thesis
      using assms(1) e r p1 p2 p3 by (simp add: handleHold_def Let_def)
  qed
  then show ?thesis
    using handleHold_unknown [OF assms(1)] handleHold_never_NotOnline by auto
qed

theorem hold_unknown_player_witness:
  "''p_x'' \<noteq> [] \<and> ''p_x'' \<notin> presenceSet trio \<and> getPlayerById (players trio) ''p_x'' = None \<and>
   handleHold trio (Body (''p_x'', Some 0)) = (trio, UnknownPlayer) \<and>
   ''p_d'' \<notin> presenceSet trio \<and> getPlayerById (players trio) ''p_d'' \<noteq> None \<and>
   ''p_d'' \<in> presenceSet (fst (handleHold trio (Body (''p_d'', Some 0))))"
proof -
  have x: "''p_x'' \<noteq> []" and d: "''p_d'' \<noteq> []" by simp_all
  have nx: "''p_x'' \<notin> presenceSet trio" and nd: "''p_d'' \<notin> presenceSet trio"
    by (simp_all add: trio_value presenceSet_def)
  have gx: "getPlayerById (players trio) ''p_x'' = None"
    and gd: "getPlayerById (players trio) ''p_d'' \<noteq> None"
    by (simp_all add: trio_value initial_def demoPlayers_def demoPlayer_def)
  from hold_unknown_player [OF x nx, of 0] gx
  have 1: "handleHold trio (Body (''p_x'', Some 0)) = (trio, UnknownPlayer)" by blast
  from hold_unknown_player [OF d nd, of 0] gd
  have 2: "''p_d'' \<in> presenceSet (fst (handleHold trio (Body (''p_d'', Some 0))))" by blast
  from x nx nd gx gd 1 2 show ?thesis by blast
qed

theorem hold_not_online_counterexample:
  "''p_d'' \<notin> presenceSet trio \<and>
   snd (handleHold trio (Body (''p_d'', Some 0))) \<noteq> NotOnline \<and>
   ''p_d'' \<in> presenceSet (fst (handleHold trio (Body (''p_d'', Some 0)))) \<and>
   occupancy (fst (handleHold trio (Body (''p_d'', Some 0)))) 0 = Some ''p_d''"
  unfolding trio_value demoPlayers_def demoPlayer_def
  by (simp add: handler_defs Let_def presenceSet_def NotOnline_def occupancy_def)

section \<open>The checks of a hold, in order\<close>

text \<open>
  Claim C4. Once the caller is known and online, \<open>hold\<close> runs its remaining checks in the
  order of the specification and stops at the first that fails, with its own failure and
  the state unchanged: a square index below 0 or not below \<^verbatim>\<open>squaresCount\<close> (for an
  integer index: outside \<open>0..squaresCount - 1\<close>) gives \<open>InvalidSquare\<close>; then a Presence Set
  whose size differs from \<^verbatim>\<open>squaresCount\<close>, smaller or larger, gives \<open>AdmissionClosed\<close>;
  then a caller who holds a square gives \<open>AlreadyHolding\<close>; then an occupied target gives
  \<open>SquareTaken\<close>. Only when all four pass are the square assigned to the caller and the
  caller's held square set, in one step, before completion is evaluated. The four failures
  are different responses.
\<close>

theorem hold_checks_in_order:
  assumes "wellFormed st" "consistent st" "playerId \<noteq> []"
    "getPlayerById (players st) playerId = Some s"
    "map_of (playersOnline st) playerId = Some player"
  shows "handleHold st (Body (playerId, Some sq)) =
      (if sq < 0 \<or> of_nat (squaresCount st) \<le> sq then (st, InvalidSquare)
       else if card (presenceSet st) \<noteq> squaresCount st then (st, AdmissionClosed)
       else if heldSquare st playerId \<noteq> None then (st, AlreadyHolding)
       else if occupancy st sq \<noteq> None then (st, SquareTaken)
       else (let st2 = assignSquare st playerId player sq
             in if checkLevelCompletion st2
                then (completeLevel st2, HoldSuccess (getBoardState (completeLevel st2)) True)
                else (st2, HoldSuccess (getBoardState st2) False))) \<and>
    occupancy (assignSquare st playerId player sq) = (occupancy st)(sq \<mapsto> playerId) \<and>
    heldSquare (assignSquare st playerId player sq) playerId = Some sq \<and>
    (\<forall>q. q \<noteq> playerId \<longrightarrow>
       heldSquare (assignSquare st playerId player sq) q = heldSquare st q) \<and>
    (\<forall>n. sq = of_int n \<longrightarrow>
       (sq < 0 \<or> of_nat (squaresCount st) \<le> sq) = (n \<notin> {0 .. int (squaresCount st) - 1})) \<and>
    distinct [InvalidSquare, AdmissionClosed, AlreadyHolding, SquareTaken]"
proof -
  have h: "heldSquare st playerId = squareIndex player"
    by (simp add: heldSquare_def assms(5))
  have 1: "handleHold st (Body (playerId, Some sq)) =
      (if sq < 0 \<or> of_nat (squaresCount st) \<le> sq then (st, InvalidSquare)
       else if card (presenceSet st) \<noteq> squaresCount st then (st, AdmissionClosed)
       else if heldSquare st playerId \<noteq> None then (st, AlreadyHolding)
       else if occupancy st sq \<noteq> None then (st, SquareTaken)
       else (let st2 = assignSquare st playerId player sq
             in if checkLevelCompletion st2
                then (completeLevel st2, HoldSuccess (getBoardState (completeLevel st2)) True)
                else (st2, HoldSuccess (getBoardState st2) False)))"
    unfolding handleHold_online [OF assms(3,4,5)] wellFormed_card [OF assms(1)] h
      occupiedAt_occupancy [OF assms(1,2)] Let_def ..
  have 5: "\<forall>n. sq = of_int n \<longrightarrow>
       (sq < 0 \<or> of_nat (squaresCount st) \<le> sq) = (n \<notin> {0 .. int (squaresCount st) - 1})"
  proof (intro allI impI)
    fix n :: int assume n: "sq = of_int n"
    have "(of_nat (squaresCount st) :: rat) = of_int (int (squaresCount st))" by simp
    then have "(of_nat (squaresCount st) \<le> sq) = (int (squaresCount st) \<le> n)"
      unfolding n by (simp only: of_int_le_iff)
    moreover have "(sq < 0) = (n < 0)" unfolding n by simp
    ultimately show "(sq < 0 \<or> of_nat (squaresCount st) \<le> sq) =
        (n \<notin> {0 .. int (squaresCount st) - 1})" by auto
  qed
  from 1 assignSquare_maps [OF assms(1,5)] 5 failures_distinct show ?thesis by simp
qed

theorem hold_checks_in_order_witness:
  "wellFormed trio \<and> consistent trio \<and> wellFormed lobby \<and> consistent lobby \<and>
   wellFormed lobbyHeld \<and> consistent lobbyHeld \<and>
   handleHold lobby (Body (''p_a'', Some 5)) = (lobby, InvalidSquare) \<and>
   handleHold trio (Body (''p_a'', Some 0)) = (trio, AdmissionClosed) \<and>
   handleHold lobbyHeld (Body (''p_a'', Some 1)) = (lobbyHeld, AlreadyHolding) \<and>
   handleHold lobbyHeld (Body (''p_b'', Some 0)) = (lobbyHeld, SquareTaken) \<and>
   handleHold lobby (Body (''p_a'', Some 0)) =
     (lobbyHeld, HoldSuccess (getBoardState lobbyHeld) False) \<and>
   occupancy lobbyHeld 0 = Some ''p_a'' \<and> heldSquare lobbyHeld ''p_a'' = Some 0"
proof -
  have a: "''p_a'' \<noteq> []" and b: "''p_b'' \<noteq> []" by simp_all
  note wt = inv_trio [THEN conjunct1] and ct = inv_trio [THEN conjunct2]
    and wl = inv_lobby [THEN conjunct1] and cl = inv_lobby [THEN conjunct2]
    and wh = inv_lobbyHeld [THEN conjunct1] and ch = inv_lobbyHeld [THEN conjunct2]
  have 1: "handleHold lobby (Body (''p_a'', Some 5)) = (lobby, InvalidSquare)"
    using hold_checks_in_order [OF wl cl a demo_stored(2) demo_online(2), of 5, THEN conjunct1]
    by (simp add: demo_counts)
  have ct3: "card (presenceSet trio) = 3" and cl4: "card (presenceSet lobby) = 4"
    and ch4: "card (presenceSet lobbyHeld) = 4"
    by (simp_all add: wellFormed_card wt wl wh demo_counts)
  have 2: "handleHold trio (Body (''p_a'', Some 0)) = (trio, AdmissionClosed)"
    using hold_checks_in_order [OF wt ct a demo_stored(1) demo_online(1), of 0, THEN conjunct1]
    by (simp add: demo_counts ct3)
  have 3: "handleHold lobbyHeld (Body (''p_a'', Some 1)) = (lobbyHeld, AlreadyHolding)"
    using hold_checks_in_order [OF wh ch a demo_stored(3) demo_online(3), of 1, THEN conjunct1]
    by (simp add: demo_counts ch4 heldSquare_def demo_online)
  have 4: "handleHold lobbyHeld (Body (''p_b'', Some 0)) = (lobbyHeld, SquareTaken)"
    using hold_checks_in_order [OF wh ch b demo_stored(4) demo_online(4), of 0, THEN conjunct1]
    by (simp add: demo_counts ch4 heldSquare_def demo_online demo_occupancy)
  have s: "assignSquare lobby ''p_a'' (newOnline (demoPlayer ''p_a'')) 0 = lobbyHeld"
    by (simp add: lobbyHeld_value lobby_value assignSquare_def initial_def demoPlayer_def)
  have n: "\<not> checkLevelCompletion lobbyHeld"
    by (simp add: checkLevelCompletion_def lobbyHeld_value lobby_value initial_def)
  have 5: "handleHold lobby (Body (''p_a'', Some 0)) =
      (lobbyHeld, HoldSuccess (getBoardState lobbyHeld) False)"
    using hold_checks_in_order [OF wl cl a demo_stored(2) demo_online(2), of 0, THEN conjunct1]
    by (simp add: demo_counts cl4 heldSquare_def demo_online demo_occupancy s n)
  have 6: "occupancy lobbyHeld 0 = Some ''p_a''" and 7: "heldSquare lobbyHeld ''p_a'' = Some 0"
    using hold_checks_in_order [OF wl cl a demo_stored(2) demo_online(2), of 0,
        THEN conjunct2]
    unfolding s by simp_all
  from wt ct wl cl wh ch 1 2 3 4 5 6 7 show ?thesis by (intro conjI)
qed

section \<open>Consistency of occupancy and held squares\<close>

text \<open>
  Claim C5. Every sequence of join, hold and release requests (and board reads) keeps
  \<^verbatim>\<open>occupied\<close> and the \<^verbatim>\<open>squareIndex\<close> fields consistent in both directions: square
  \<open>i\<close> is occupied by \<open>p\<close> exactly when \<open>p\<close> is online and holds \<open>i\<close>; a square has at most
  one occupant (no key of \<^verbatim>\<open>occupied\<close> occurs twice); a player occupies at most one
  square; every occupant is in the Presence Set. This holds in every state reached from the
  initial state of the server, for any stored players, and the invariant behind it
  (\<open>wellFormed\<close> and \<open>consistent\<close>) is kept by every sequence of requests from any state
  that satisfies it.
\<close>

theorem consistency_preserved:
  "bidirectional (run (initial ps) rs) \<and>
   (wellFormed st \<and> consistent st \<longrightarrow>
      wellFormed (run st rs) \<and> consistent (run st rs) \<and> bidirectional (run st rs))"
  using inv_run [of st rs] inv_run [of "initial ps" rs] inv_initial [of ps]
  by (auto intro: inv_bidirectional)

theorem consistency_preserved_witness:
  "wellFormed lobby \<and> consistent lobby \<and>
   bidirectional (run lobby demoRequests) \<and>
   occupancy (run lobby demoRequests) 1 = Some ''p_b'' \<and>
   ''p_b'' \<in> presenceSet (run lobby demoRequests) \<and>
   heldSquare (run lobby demoRequests) ''p_b'' = Some 1"
proof -
  have w: "wellFormed lobby \<and> consistent lobby"
    by (simp add: lobby_value wellFormed_def consistent_def initial_def heldSquare_def
        demoPlayer_def)
  have o: "occupancy (run lobby demoRequests) 1 = Some ''p_b''"
    unfolding lobby_value demoRequests_def demoPlayers_def demoPlayer_def
    by (simp add: handler_defs occupancy_def Let_def)
  from w consistency_preserved [of demoPlayers demoRequests lobby]
  have b: "bidirectional (run lobby demoRequests)" by simp
  with o have "''p_b'' \<in> presenceSet (run lobby demoRequests) \<and>
      heldSquare (run lobby demoRequests) ''p_b'' = Some 1"
    unfolding bidirectional_def by blast
  with w o b show ?thesis by simp
qed

section \<open>Release\<close>

text \<open>
  Claim C6 describes \<open>release\<close>: \<open>NotOnline\<close> for a player outside the Presence Set, a
  tolerated no-op for an online player who holds nothing, and otherwise the square is
  freed. \<^verbatim>\<open>handleRelease\<close> does the last two (\<open>release_behaviour\<close>, \<open>release_twice\<close>),
  and answers \<open>NotOnline\<close> for every identifier that is neither online nor the name of a
  member of \<^verbatim>\<open>Object.prototype\<close>. For such a name, here \<^verbatim>\<open>toString\<close>, the guard
  \<^verbatim>\<open>if (!player)\<close> lets the inherited function through, and the request of a player who
  is not online is answered with success and the board.
\<close>

theorem release_inherited_name:
  "''toString'' \<notin> presenceSet lobby \<and>
   handleRelease lobby (Body ''toString'') = (lobby, Success (getBoardState lobby)) \<and>
   snd (handleRelease lobby (Body ''toString'')) \<noteq> NotOnline"
  by (simp add: lobby_value handleRelease_def objectPrototypeKeys_def presenceSet_def
      NotOnline_def)

section \<open>Join\<close>

text \<open>
  Claim C7. \<open>join\<close> fails with \<open>UnknownPlayer\<close>, changing nothing, when the Player
  Directory does not hold the identifier. For a stored player who is not online it appends
  one entry under the player's identifier: the identifier, nickname, country, role and
  \<^verbatim>\<open>levelsCompleted\<close> of the stored record, with no held square; it answers with the
  board of the new state, that is the level, the number of squares, the occupancy and the
  four board fields of every online player in order, the new player last. For a player
  who is already online it changes nothing (the entry, its held square included, stays as
  it is) and answers with the board of the unchanged state. Hence a second join by the
  same player repeats the first answer and leaves the state of the first, and no key of
  \<^verbatim>\<open>playersOnline\<close> is ever duplicated.
\<close>

theorem join_idempotent:
  assumes "playerId \<noteq> []"
  shows "(getPlayerById (players st) playerId = None \<longrightarrow>
            handleJoin st (Body playerId) = (st, UnknownPlayer)) \<and>
         (\<forall>s. getPlayerById (players st) playerId = Some s \<and> playerId \<notin> presenceSet st \<longrightarrow>
            (let st1 = st\<lparr>playersOnline := playersOnline st @ [(playerId, newOnline s)]\<rparr>
             in handleJoin st (Body playerId) = (st1, Success (getBoardState st1)) \<and>
                heldSquare st1 playerId = None \<and>
                presenceSet st1 = insert playerId (presenceSet st))) \<and>
         (\<forall>s. getPlayerById (players st) playerId = Some s \<and> playerId \<in> presenceSet st \<longrightarrow>
            handleJoin st (Body playerId) = (st, Success (getBoardState st))) \<and>
         handleJoin (fst (handleJoin st (Body playerId))) (Body playerId) =
           (fst (handleJoin st (Body playerId)), snd (handleJoin st (Body playerId))) \<and>
         (distinct (map fst (playersOnline st)) \<longrightarrow>
            distinct (map fst (playersOnline (fst (handleJoin st (Body playerId)))))) \<and>
         (\<forall>s. getPlayerById (players st) playerId = Some s \<and> playerId \<notin> presenceSet st \<longrightarrow>
            handleJoin st (Body playerId) =
              (st\<lparr>playersOnline := playersOnline st @
                  [(playerId, \<lparr>player_id = playerId, nickname = nickname s,
                      country = country s, role = role s,
                      levelsCompleted = levelsCompleted s, squareIndex = None\<rparr>)]\<rparr>,
               Success \<lparr>board_level = currentLevel st, board_squaresCount = squaresCount st,
                 board_occupied = occupied st,
                 board_players =
                   map (\<lambda>(k, p). \<lparr>view_id = player_id p, view_nickname = nickname p,
                          view_country = country p, view_squareIndex = squareIndex p\<rparr>)
                     (playersOnline st) @
                   [\<lparr>view_id = playerId, view_nickname = nickname s,
                     view_country = country s, view_squareIndex = None\<rparr>]\<rparr>)) \<and>
         (\<forall>s. getPlayerById (players st) playerId = Some s \<and> playerId \<in> presenceSet st \<longrightarrow>
            handleJoin st (Body playerId) =
              (st,
               Success \<lparr>board_level = currentLevel st, board_squaresCount = squaresCount st,
                 board_occupied = occupied st,
                 board_players =
                   map (\<lambda>(k, p). \<lparr>view_id = player_id p, view_nickname = nickname p,
                          view_country = country p, view_squareIndex = squareIndex p\<rparr>)
                     (playersOnline st)\<rparr>))"
proof -
  have u: "handleJoin st (Body playerId) = (st, UnknownPlayer)"
    if "getPlayerById (players st) playerId = None"
    using that assms by (simp add: handleJoin_def ensureOnline_unknown UnknownPlayer_def)
  have on: "handleJoin st (Body playerId) = (st, Success (getBoardState st))"
    if "getPlayerById (players st) playerId = Some s" "playerId \<in> presenceSet st" for s st
    using that assms
    by (auto simp: handleJoin_def presenceSet_map_of ensureOnline_online)
  have off: "handleJoin st (Body playerId) =
      (st\<lparr>playersOnline := playersOnline st @ [(playerId, newOnline s)]\<rparr>,
       Success (getBoardState (st\<lparr>playersOnline := playersOnline st @ [(playerId, newOnline s)]\<rparr>)))"
    if "getPlayerById (players st) playerId = Some s" "playerId \<notin> presenceSet st" for s
    using that assms
    by (simp add: handleJoin_def presenceSet_map_of ensureOnline_offline)
  have h: "heldSquare (st\<lparr>playersOnline := playersOnline st @ [(playerId, newOnline s)]\<rparr>) playerId
      = None" if "playerId \<notin> presenceSet st" for s
    using that
    by (simp add: heldSquare_def presenceSet_map_of map_of_append_new del: map_of_append)
  have p: "presenceSet (st\<lparr>playersOnline := playersOnline st @ [(playerId, newOnline s)]\<rparr>)
      = insert playerId (presenceSet st)" for s
    by (auto simp: presenceSet_def)
  have twice: "handleJoin (fst (handleJoin st (Body playerId))) (Body playerId) =
      (fst (handleJoin st (Body playerId)), snd (handleJoin st (Body playerId)))"
  proof (cases "getPlayerById (players st) playerId")
    case None
    then show ?thesis by (simp add: u)
  next
    case (Some s)
    show ?thesis
    proof (cases "playerId \<in> presenceSet st")
      case True
      then show ?thesis by (simp add: on [OF Some])
    next
      case False
      let ?st1 = "st\<lparr>playersOnline := playersOnline st @ [(playerId, newOnline s)]\<rparr>"
      have "getPlayerById (players ?st1) playerId = Some s" using Some by simp
      moreover have "playerId \<in> presenceSet ?st1" by (simp add: p)
      ultimately have "handleJoin ?st1 (Body playerId) = (?st1, Success (getBoardState ?st1))"
        by (rule on)
      then show ?thesis by (simp add: off [OF Some False])
    qed
  qed
  have d: "distinct (map fst (playersOnline (fst (handleJoin st (Body playerId)))))"
    if dd: "distinct (map fst (playersOnline st))"
  proof (cases "getPlayerById (players st) playerId")
    case None
    then show ?thesis using dd by (simp add: u)
  next
    case (Some s)
    show ?thesis
    proof (cases "playerId \<in> presenceSet st")
      case True
      then show ?thesis using dd by (simp add: on [OF Some])
    next
      case False
      then show ?thesis using dd by (simp add: off [OF Some False] presenceSet_def)
    qed
  qed
  have c2: "\<forall>s. getPlayerById (players st) playerId = Some s \<and> playerId \<notin> presenceSet st \<longrightarrow>
      (let st1 = st\<lparr>playersOnline := playersOnline st @ [(playerId, newOnline s)]\<rparr>
       in handleJoin st (Body playerId) = (st1, Success (getBoardState st1)) \<and>
          heldSquare st1 playerId = None \<and>
          presenceSet st1 = insert playerId (presenceSet st))"
    unfolding Let_def using off h p by simp
  have c3: "\<forall>s. getPlayerById (players st) playerId = Some s \<and> playerId \<in> presenceSet st \<longrightarrow>
      handleJoin st (Body playerId) = (st, Success (getBoardState st))"
    using on by simp
  have bs: "getBoardState t =
      \<lparr>board_level = currentLevel t, board_squaresCount = squaresCount t,
       board_occupied = occupied t,
       board_players =
         map (\<lambda>(k, p). \<lparr>view_id = player_id p, view_nickname = nickname p,
                view_country = country p, view_squareIndex = squareIndex p\<rparr>)
           (playersOnline t)\<rparr>" for t
    by (simp add: getBoardState_def view_def case_prod_unfold comp_def)
  have c6: "\<forall>s. getPlayerById (players st) playerId = Some s \<and> playerId \<notin> presenceSet st \<longrightarrow>
      handleJoin st (Body playerId) =
        (st\<lparr>playersOnline := playersOnline st @
            [(playerId, \<lparr>player_id = playerId, nickname = nickname s,
                country = country s, role = role s,
                levelsCompleted = levelsCompleted s, squareIndex = None\<rparr>)]\<rparr>,
         Success \<lparr>board_level = currentLevel st, board_squaresCount = squaresCount st,
           board_occupied = occupied st,
           board_players =
             map (\<lambda>(k, p). \<lparr>view_id = player_id p, view_nickname = nickname p,
                    view_country = country p, view_squareIndex = squareIndex p\<rparr>)
               (playersOnline st) @
             [\<lparr>view_id = playerId, view_nickname = nickname s,
               view_country = country s, view_squareIndex = None\<rparr>]\<rparr>)"
  proof (intro allI impI)
    fix s assume a: "getPlayerById (players st) playerId = Some s \<and> playerId \<notin> presenceSet st"
    then have i: "player_id s = playerId" using getPlayerById_Some by blast
    from a have g: "getPlayerById (players st) playerId = Some s"
      and n: "playerId \<notin> presenceSet st" by simp_all
    show "handleJoin st (Body playerId) =
        (st\<lparr>playersOnline := playersOnline st @
            [(playerId, \<lparr>player_id = playerId, nickname = nickname s,
                country = country s, role = role s,
                levelsCompleted = levelsCompleted s, squareIndex = None\<rparr>)]\<rparr>,
         Success \<lparr>board_level = currentLevel st, board_squaresCount = squaresCount st,
           board_occupied = occupied st,
           board_players =
             map (\<lambda>(k, p). \<lparr>view_id = player_id p, view_nickname = nickname p,
                    view_country = country p, view_squareIndex = squareIndex p\<rparr>)
               (playersOnline st) @
             [\<lparr>view_id = playerId, view_nickname = nickname s,
               view_country = country s, view_squareIndex = None\<rparr>]\<rparr>)"
      unfolding off [OF g n] bs by (simp add: newOnline_def i)
  qed
  have c7: "\<forall>s. getPlayerById (players st) playerId = Some s \<and> playerId \<in> presenceSet st \<longrightarrow>
      handleJoin st (Body playerId) =
        (st,
         Success \<lparr>board_level = currentLevel st, board_squaresCount = squaresCount st,
           board_occupied = occupied st,
           board_players =
             map (\<lambda>(k, p). \<lparr>view_id = player_id p, view_nickname = nickname p,
                    view_country = country p, view_squareIndex = squareIndex p\<rparr>)
               (playersOnline st)\<rparr>)"
    using on bs [of st] by simp
  from u c2 c3 twice d c6 c7 show ?thesis by (intro conjI impI)
qed

theorem join_idempotent_witness:
  "''p_d'' \<noteq> [] \<and> getPlayerById (players trio) ''p_d'' = Some (demoPlayer ''p_d'') \<and>
   ''p_d'' \<notin> presenceSet trio \<and>
   handleJoin trio (Body ''p_d'') = (lobby, Success (getBoardState lobby)) \<and>
   ''p_d'' \<in> presenceSet lobby \<and>
   handleJoin lobby (Body ''p_d'') = (lobby, Success (getBoardState lobby)) \<and>
   getPlayerById (players trio) ''p_x'' = None \<and>
   handleJoin trio (Body ''p_x'') = (trio, UnknownPlayer) \<and>
   distinct (map fst (playersOnline trio)) \<and> distinct (map fst (playersOnline lobby)) \<and>
   map_of (playersOnline (fst (handleJoin trio (Body ''p_d'')))) ''p_d'' =
     Some \<lparr>player_id = ''p_d'', nickname = ''nick'', country = ''NL'', role = ''player'',
       levelsCompleted = 0, squareIndex = None\<rparr> \<and>
   snd (handleJoin trio (Body ''p_d'')) =
     Success \<lparr>board_level = 1, board_squaresCount = 4, board_occupied = [],
       board_players =
         [\<lparr>view_id = ''p_a'', view_nickname = ''nick'', view_country = ''NL'',
           view_squareIndex = None\<rparr>,
          \<lparr>view_id = ''p_b'', view_nickname = ''nick'', view_country = ''NL'',
           view_squareIndex = None\<rparr>,
          \<lparr>view_id = ''p_c'', view_nickname = ''nick'', view_country = ''NL'',
           view_squareIndex = None\<rparr>,
          \<lparr>view_id = ''p_d'', view_nickname = ''nick'', view_country = ''NL'',
           view_squareIndex = None\<rparr>]\<rparr> \<and>
   snd (handleJoin lobbyHeld (Body ''p_a'')) =
     Success \<lparr>board_level = 1, board_squaresCount = 4, board_occupied = [(0, ''p_a'')],
       board_players =
         [\<lparr>view_id = ''p_a'', view_nickname = ''nick'', view_country = ''NL'',
           view_squareIndex = Some 0\<rparr>,
          \<lparr>view_id = ''p_b'', view_nickname = ''nick'', view_country = ''NL'',
           view_squareIndex = None\<rparr>,
          \<lparr>view_id = ''p_c'', view_nickname = ''nick'', view_country = ''NL'',
           view_squareIndex = None\<rparr>,
          \<lparr>view_id = ''p_d'', view_nickname = ''nick'', view_country = ''NL'',
           view_squareIndex = None\<rparr>]\<rparr> \<and>
   fst (handleJoin lobbyHeld (Body ''p_a'')) = lobbyHeld \<and>
   heldSquare lobbyHeld ''p_a'' = Some 0"
proof -
  have x: "''p_x'' \<noteq> []" and d: "''p_d'' \<noteq> []" by simp_all
  have gd: "getPlayerById (players trio) ''p_d'' = Some (demoPlayer ''p_d'')"
    and gx: "getPlayerById (players trio) ''p_x'' = None"
    and gl: "getPlayerById (players lobby) ''p_d'' = Some (demoPlayer ''p_d'')"
    by (simp_all add: trio_value lobby_value initial_def demoPlayers_def demoPlayer_def)
  have nd: "''p_d'' \<notin> presenceSet trio" and il: "''p_d'' \<in> presenceSet lobby"
    by (simp_all add: trio_value lobby_value presenceSet_def)
  have l: "trio\<lparr>playersOnline := playersOnline trio @ [(''p_d'', newOnline (demoPlayer ''p_d''))]\<rparr>
      = lobby"
    by (simp add: trio_value lobby_value)
  have dt: "distinct (map fst (playersOnline trio))" by (simp add: trio_value)
  note jt = join_idempotent [OF d, of trio] and jl = join_idempotent [OF d, of lobby]
    and jx = join_idempotent [OF x, of trio]
  from gd nd have "getPlayerById (players trio) ''p_d'' = Some (demoPlayer ''p_d'') \<and>
      ''p_d'' \<notin> presenceSet trio" ..
  from jt [THEN conjunct2, THEN conjunct1, rule_format, OF this]
  have 1: "handleJoin trio (Body ''p_d'') = (lobby, Success (getBoardState lobby))"
    unfolding Let_def l by (rule conjunct1)
  from gl il have "getPlayerById (players lobby) ''p_d'' = Some (demoPlayer ''p_d'') \<and>
      ''p_d'' \<in> presenceSet lobby" ..
  from jl [THEN conjunct2, THEN conjunct2, THEN conjunct1, rule_format, OF this]
  have 2: "handleJoin lobby (Body ''p_d'') = (lobby, Success (getBoardState lobby))" .
  from jx [THEN conjunct1, rule_format, OF gx]
  have 3: "handleJoin trio (Body ''p_x'') = (trio, UnknownPlayer)" .
  from jt [THEN conjunct2, THEN conjunct2, THEN conjunct2, THEN conjunct2, THEN conjunct1,
      rule_format, OF dt]
  have "distinct (map fst (playersOnline (fst (handleJoin trio (Body ''p_d'')))))" .
  then have 4: "distinct (map fst (playersOnline lobby))" unfolding 1 by simp
  note w = jt [THEN conjunct2, THEN conjunct2, THEN conjunct2, THEN conjunct2, THEN conjunct2,
      THEN conjunct1, rule_format, OF \<open>getPlayerById (players trio) ''p_d'' =
        Some (demoPlayer ''p_d'') \<and> ''p_d'' \<notin> presenceSet trio\<close>]
  have 5: "map_of (playersOnline (fst (handleJoin trio (Body ''p_d'')))) ''p_d'' =
     Some \<lparr>player_id = ''p_d'', nickname = ''nick'', country = ''NL'', role = ''player'',
       levelsCompleted = 0, squareIndex = None\<rparr>"
    unfolding w by (simp add: trio_value demoPlayer_def)
  have 6: "snd (handleJoin trio (Body ''p_d'')) =
     Success \<lparr>board_level = 1, board_squaresCount = 4, board_occupied = [],
       board_players =
         [\<lparr>view_id = ''p_a'', view_nickname = ''nick'', view_country = ''NL'',
           view_squareIndex = None\<rparr>,
          \<lparr>view_id = ''p_b'', view_nickname = ''nick'', view_country = ''NL'',
           view_squareIndex = None\<rparr>,
          \<lparr>view_id = ''p_c'', view_nickname = ''nick'', view_country = ''NL'',
           view_squareIndex = None\<rparr>,
          \<lparr>view_id = ''p_d'', view_nickname = ''nick'', view_country = ''NL'',
           view_squareIndex = None\<rparr>]\<rparr>"
    unfolding w by (simp add: trio_value initial_def demoPlayer_def newOnline_def)
  have ph: "''p_a'' \<in> presenceSet lobbyHeld"
    by (simp add: lobbyHeld_value presenceSet_def)
  have a: "''p_a'' \<noteq> []" by simp
  from demo_stored(3) ph
  have "getPlayerById (players lobbyHeld) ''p_a'' = Some (demoPlayer ''p_a'') \<and>
      ''p_a'' \<in> presenceSet lobbyHeld" ..
  note v = join_idempotent [OF a, of lobbyHeld, THEN conjunct2, THEN conjunct2, THEN conjunct2,
      THEN conjunct2, THEN conjunct2, THEN conjunct2, rule_format, OF this]
  have 7: "snd (handleJoin lobbyHeld (Body ''p_a'')) =
     Success \<lparr>board_level = 1, board_squaresCount = 4, board_occupied = [(0, ''p_a'')],
       board_players =
         [\<lparr>view_id = ''p_a'', view_nickname = ''nick'', view_country = ''NL'',
           view_squareIndex = Some 0\<rparr>,
          \<lparr>view_id = ''p_b'', view_nickname = ''nick'', view_country = ''NL'',
           view_squareIndex = None\<rparr>,
          \<lparr>view_id = ''p_c'', view_nickname = ''nick'', view_country = ''NL'',
           view_squareIndex = None\<rparr>,
          \<lparr>view_id = ''p_d'', view_nickname = ''nick'', view_country = ''NL'',
           view_squareIndex = None\<rparr>]\<rparr>"
    unfolding v
    by (simp add: lobbyHeld_value lobby_value initial_def demoPlayer_def newOnline_def)
  have 8: "fst (handleJoin lobbyHeld (Body ''p_a'')) = lobbyHeld"
    unfolding v by simp
  have 9: "heldSquare lobbyHeld ''p_a'' = Some 0"
    by (simp add: heldSquare_def demo_online)
  from d gd nd il gx dt 1 2 3 4 5 6 7 8 9 show ?thesis by (intro conjI)
qed

section \<open>The board sent to clients\<close>

text \<open>
  Claim C8, as amended. The specification lists \<open>levelsCompleted\<close> among the fields of each
  player of a snapshot. \<^verbatim>\<open>getBoardState\<close> copies four fields of each online player:
  \<^verbatim>\<open>id\<close>, \<^verbatim>\<open>nickname\<close>, \<^verbatim>\<open>country\<close> and \<^verbatim>\<open>squareIndex\<close>. Every board returned by join,
  hold, release and the board request is \<^verbatim>\<open>getBoardState\<close> of the state the request
  leaves, with the level, the number of squares, the occupancy and those four fields of
  every online player; it does not depend on any player's \<^verbatim>\<open>levelsCompleted\<close> (or
  \<^verbatim>\<open>role\<close>).
\<close>

theorem snapshot_shape:
  "(\<forall>b. snd (handleJoin st jb) = Success b \<longrightarrow> b = getBoardState (fst (handleJoin st jb))) \<and>
   (\<forall>b. snd (handleRelease st rb) = Success b \<longrightarrow>
      b = getBoardState (fst (handleRelease st rb))) \<and>
   (\<forall>b lc. snd (handleHold st hb) = HoldSuccess b lc \<longrightarrow>
      b = getBoardState (fst (handleHold st hb))) \<and>
   handleBoard st = (st, BoardReply (getBoardState st)) \<and>
   getBoardState st =
     \<lparr>board_level = currentLevel st, board_squaresCount = squaresCount st,
      board_occupied = occupied st,
      board_players = map (\<lambda>(k, p). \<lparr>view_id = player_id p, view_nickname = nickname p,
          view_country = country p, view_squareIndex = squareIndex p\<rparr>) (playersOnline st)\<rparr> \<and>
   getBoardState (st\<lparr>playersOnline :=
       map (\<lambda>(k, p). (k, p\<lparr>levelsCompleted := f k p, role := g k p\<rparr>)) (playersOnline st)\<rparr>) =
     getBoardState st"
proof -
  have j: "\<forall>b. snd (handleJoin st jb) = Success b \<longrightarrow> b = getBoardState (fst (handleJoin st jb))"
    by (auto simp: handleJoin_def split: parsed.splits option.splits prod.splits if_splits)
  have r: "\<forall>b. snd (handleRelease st rb) = Success b \<longrightarrow>
      b = getBoardState (fst (handleRelease st rb))"
    by (auto simp: handleRelease_def Let_def split: parsed.splits option.splits if_splits)
  have h: "\<forall>b lc. snd (handleHold st hb) = HoldSuccess b lc \<longrightarrow>
      b = getBoardState (fst (handleHold st hb))"
  proof (intro allI impI)
    fix b lc assume a: "snd (handleHold st hb) = HoldSuccess b lc"
    obtain st' r where e: "handleHold st hb = (st', r)" by (cases "handleHold st hb")
    from handleHold_cases [OF e] a e show "b = getBoardState (fst (handleHold st hb))"
      by (auto split: if_splits)
  qed
  have g: "getBoardState st =
     \<lparr>board_level = currentLevel st, board_squaresCount = squaresCount st,
      board_occupied = occupied st,
      board_players = map (\<lambda>(k, p). \<lparr>view_id = player_id p, view_nickname = nickname p,
          view_country = country p, view_squareIndex = squareIndex p\<rparr>) (playersOnline st)\<rparr>"
    by (simp add: getBoardState_def view_def fun_eq_iff case_prod_unfold comp_def)
  have i: "getBoardState (st\<lparr>playersOnline :=
       map (\<lambda>(k, p). (k, p\<lparr>levelsCompleted := f k p, role := g k p\<rparr>)) (playersOnline st)\<rparr>) =
     getBoardState st"
    by (simp add: getBoardState_def view_def case_prod_unfold comp_def)
  from j r h g i show ?thesis by (simp only: handleBoard_def simp_thms)
qed

theorem snapshot_shape_witness:
  "snd (handleJoin trio (Body ''p_d'')) = Success (getBoardState lobby) \<and>
   fst (handleJoin trio (Body ''p_d'')) = lobby \<and>
   snd (handleHold almost (Body (''p_d'', Some 3))) = HoldSuccess (getBoardState nextLevel) True \<and>
   snd (handleRelease lobbyHeld (Body ''p_a'')) = Success (getBoardState lobby) \<and>
   fst (handleRelease lobbyHeld (Body ''p_a'')) = lobby \<and>
   board_players (getBoardState lobbyHeld) =
     [\<lparr>view_id = ''p_a'', view_nickname = ''nick'', view_country = ''NL'',
       view_squareIndex = Some 0\<rparr>,
      \<lparr>view_id = ''p_b'', view_nickname = ''nick'', view_country = ''NL'',
       view_squareIndex = None\<rparr>,
      \<lparr>view_id = ''p_c'', view_nickname = ''nick'', view_country = ''NL'',
       view_squareIndex = None\<rparr>,
      \<lparr>view_id = ''p_d'', view_nickname = ''nick'', view_country = ''NL'',
       view_squareIndex = None\<rparr>]"
proof -
  have fj: "fst (handleJoin trio (Body ''p_d'')) = lobby"
    unfolding trio_value lobby_value demoPlayers_def demoPlayer_def
    by (simp add: handler_defs Let_def)
  have "\<exists>b. snd (handleJoin trio (Body ''p_d'')) = Success b"
    unfolding trio_value demoPlayers_def demoPlayer_def
    by (simp add: handler_defs Let_def)
  then obtain b where b: "snd (handleJoin trio (Body ''p_d'')) = Success b" ..
  from snapshot_shape [of trio "Body ''p_d''", THEN conjunct1, rule_format, OF b] b fj
  have 1: "snd (handleJoin trio (Body ''p_d'')) = Success (getBoardState lobby)" by simp
  have fh: "fst (handleHold almost (Body (''p_d'', Some 3))) = nextLevel"
    by (simp add: nextLevel_def)
  have "snd (handleHold almost (Body (''p_d'', Some 3))) =
      HoldSuccess (getBoardState nextLevel) True"
    by (simp add: almost_hold)
  then have 2: "snd (handleHold almost (Body (''p_d'', Some 3))) =
      HoldSuccess (getBoardState (fst (handleHold almost (Body (''p_d'', Some 3))))) True"
    using snapshot_shape [where st = almost and hb = "Body (''p_d'', Some 3)", THEN conjunct2,
        THEN conjunct2, THEN conjunct1, rule_format] by simp
  have fr: "fst (handleRelease lobbyHeld (Body ''p_a'')) = lobby"
    unfolding lobbyHeld_value lobby_value demoPlayers_def demoPlayer_def
    by (simp add: handler_defs Let_def)
  have "\<exists>b. snd (handleRelease lobbyHeld (Body ''p_a'')) = Success b"
    unfolding lobbyHeld_value lobby_value demoPlayers_def demoPlayer_def
    by (simp add: handler_defs Let_def)
  then obtain c where c: "snd (handleRelease lobbyHeld (Body ''p_a'')) = Success c" ..
  from snapshot_shape [where st = lobbyHeld and rb = "Body ''p_a''", THEN conjunct2, THEN conjunct1,
      rule_format, OF c] c fr
  have 3: "snd (handleRelease lobbyHeld (Body ''p_a'')) = Success (getBoardState lobby)"
    by simp
  have 4: "board_players (getBoardState lobbyHeld) =
     [\<lparr>view_id = ''p_a'', view_nickname = ''nick'', view_country = ''NL'',
       view_squareIndex = Some 0\<rparr>,
      \<lparr>view_id = ''p_b'', view_nickname = ''nick'', view_country = ''NL'',
       view_squareIndex = None\<rparr>,
      \<lparr>view_id = ''p_c'', view_nickname = ''nick'', view_country = ''NL'',
       view_squareIndex = None\<rparr>,
      \<lparr>view_id = ''p_d'', view_nickname = ''nick'', view_country = ''NL'',
       view_squareIndex = None\<rparr>]"
    by (simp add: getBoardState_def view_def lobbyHeld_value newOnline_def demoPlayer_def)
  from 1 fj 2 3 fr 4 show ?thesis unfolding fh by (intro conjI)
qed

theorem snapshot_levelsCompleted_counterexample:
  "getBoardState veteranLobby = getBoardState lobby \<and>
   map (\<lambda>(k, p). levelsCompleted p) (playersOnline veteranLobby) = [5, 5, 5, 5] \<and>
   map (\<lambda>(k, p). levelsCompleted p) (playersOnline lobby) = [0, 0, 0, 0]"
  by (simp add: veteranLobby_value lobby_value getBoardState_def view_def initial_def
      newOnline_def demoPlayer_def)

section \<open>A hold enrols its caller\<close>

text \<open>
  Claim C9. For a player of the directory who is not in the Presence Set, \<open>hold\<close> first
  adds the player to the Presence Set, holding no square, and evaluates every later check
  on the enlarged set: the call answers as it does from the state in which the player is
  already online. The entry stays when the call fails with \<open>InvalidSquare\<close>,
  \<open>AdmissionClosed\<close> or \<open>SquareTaken\<close>, so the Presence Set is one larger afterwards, and
  the admission check compares the enlarged headcount with \<^verbatim>\<open>squaresCount\<close>.
\<close>

theorem hold_enrols_caller:
  assumes "playerId \<noteq> []" "getPlayerById (players st) playerId = Some s"
    "playerId \<notin> presenceSet st"
  shows "(let st1 = st\<lparr>playersOnline := playersOnline st @ [(playerId, newOnline s)]\<rparr>;
              res = handleHold st (Body (playerId, Some sq))
          in res = handleHold st1 (Body (playerId, Some sq)) \<and>
             presenceSet st1 = insert playerId (presenceSet st) \<and>
             heldSquare st1 playerId = None \<and>
             (snd res \<in> {InvalidSquare, AdmissionClosed, SquareTaken} \<longrightarrow>
                fst res = st1 \<and> card (presenceSet (fst res)) = card (presenceSet st) + 1) \<and>
             (snd res = AdmissionClosed \<longleftrightarrow>
                0 \<le> sq \<and> sq < of_nat (squaresCount st) \<and>
                length (playersOnline st) + 1 \<noteq> squaresCount st))"
proof -
  let ?st1 = "st\<lparr>playersOnline := playersOnline st @ [(playerId, newOnline s)]\<rparr>"
  let ?b = "Body (playerId, Some sq)"
  have n: "map_of (playersOnline st) playerId = None"
    using assms(3) by (simp add: presenceSet_map_of)
  have l: "map_of (playersOnline ?st1) playerId = Some (newOnline s)"
    using n by (simp add: map_of_append_new del: map_of_append)
  have g: "getPlayerById (players ?st1) playerId = Some s" using assms(2) by simp
  have e: "handleHold st ?b = handleHold ?st1 ?b"
    using assms(1,2) n by (rule handleHold_offline)
  have p: "presenceSet ?st1 = insert playerId (presenceSet st)"
    by (auto simp: presenceSet_def)
  have h: "heldSquare ?st1 playerId = None"
    unfolding heldSquare_def l by simp
  have c: "card (presenceSet ?st1) = card (presenceSet st) + 1"
    unfolding p using assms(3) by (simp add: presenceSet_def)
  note o = handleHold_online [OF assms(1) g l, of sq]
  have f: "snd (handleHold st ?b) \<in> {InvalidSquare, AdmissionClosed, SquareTaken} \<longrightarrow>
      fst (handleHold st ?b) = ?st1"
    unfolding e o
    by (simp add: InvalidSquare_def AdmissionClosed_def SquareTaken_def AlreadyHolding_def)
  have a: "snd (handleHold st ?b) = AdmissionClosed \<longleftrightarrow>
      0 \<le> sq \<and> sq < of_nat (squaresCount st) \<and> length (playersOnline st) + 1 \<noteq> squaresCount st"
    unfolding e o
    by (auto simp: InvalidSquare_def AdmissionClosed_def SquareTaken_def AlreadyHolding_def)
  show ?thesis
    unfolding Let_def using e p h f a c by simp
qed

theorem hold_enrols_caller_witness:
  "''p_d'' \<noteq> [] \<and> getPlayerById (players trio) ''p_d'' = Some (demoPlayer ''p_d'') \<and>
   ''p_d'' \<notin> presenceSet trio \<and>
   snd (handleHold trio (Body (''p_d'', Some 7))) = InvalidSquare \<and>
   fst (handleHold trio (Body (''p_d'', Some 7))) = lobby \<and>
   card (presenceSet lobby) = card (presenceSet trio) + 1 \<and>
   snd (handleHold trio (Body (''p_a'', Some 0))) = AdmissionClosed \<and>
   snd (handleHold lobby (Body (''p_a'', Some 0))) \<noteq> AdmissionClosed"
proof -
  have g: "getPlayerById (players trio) ''p_d'' = Some (demoPlayer ''p_d'')"
    by (simp add: trio_value initial_def demoPlayers_def demoPlayer_def)
  have n: "''p_d'' \<notin> presenceSet trio"
    by (simp add: trio_value presenceSet_def)
  have r: "snd (handleHold trio (Body (''p_d'', Some 7))) = InvalidSquare"
    unfolding trio_value demoPlayers_def demoPlayer_def
    by (simp add: handler_defs Let_def InvalidSquare_def)
  have l: "trio\<lparr>playersOnline := playersOnline trio @ [(''p_d'', newOnline (demoPlayer ''p_d''))]\<rparr>
      = lobby"
    by (simp add: trio_value lobby_value)
  have a: "snd (handleHold trio (Body (''p_a'', Some 0))) = AdmissionClosed"
    unfolding trio_value demoPlayers_def demoPlayer_def
    by (simp add: handler_defs Let_def AdmissionClosed_def)
  have b: "snd (handleHold lobby (Body (''p_a'', Some 0))) \<noteq> AdmissionClosed"
    unfolding lobby_value demoPlayers_def demoPlayer_def
    by (simp add: handler_defs Let_def AdmissionClosed_def)
  have "''p_d'' \<noteq> []" by simp
  from hold_enrols_caller [OF this g n, of 7]
  have t: "snd (handleHold trio (Body (''p_d'', Some 7)))
        \<in> {InvalidSquare, AdmissionClosed, SquareTaken} \<longrightarrow>
      fst (handleHold trio (Body (''p_d'', Some 7))) = lobby \<and>
      card (presenceSet (fst (handleHold trio (Body (''p_d'', Some 7))))) =
        card (presenceSet trio) + 1"
    unfolding Let_def l by blast
  have m: "snd (handleHold trio (Body (''p_d'', Some 7)))
        \<in> {InvalidSquare, AdmissionClosed, SquareTaken}"
    unfolding r by blast
  from t m have u: "fst (handleHold trio (Body (''p_d'', Some 7))) = lobby"
    and v: "card (presenceSet (fst (handleHold trio (Body (''p_d'', Some 7))))) =
        card (presenceSet trio) + 1"
    by blast+
  from v have "card (presenceSet lobby) = card (presenceSet trio) + 1"
    unfolding u .
  with u have "fst (handleHold trio (Body (''p_d'', Some 7))) = lobby \<and>
      card (presenceSet lobby) = card (presenceSet trio) + 1"
    by blast
  with g n r a b show ?thesis by blast
qed

section \<open>Square indices that are not integers\<close>

text \<open>
  Claim C10. The range check of \<open>hold\<close> compares numbers and does not ask for an integer.
  For every number \<open>x\<close> that is not an integer, with \<open>0 \<le> x < squaresCount\<close> (such as
  \<open>1/2\<close>), the call does not fail with \<open>InvalidSquare\<close>, although \<open>x\<close> is none of the
  square indices \<open>0, \<dots>, squaresCount - 1\<close>; and when the caller is stored and online, the
  headcount matches, the caller holds nothing and \<open>x\<close> is free, the hold succeeds: square
  \<open>x\<close> is recorded as occupied by the caller, who holds \<open>x\<close>.
\<close>

theorem hold_fractional_square:
  assumes "x \<notin> \<int>" "0 \<le> x" "x < of_nat (squaresCount st)"
  shows "snd (handleHold st (Body (playerId, Some x))) \<noteq> InvalidSquare \<and>
    x \<notin> of_nat ` {0 ..< squaresCount st} \<and>
    (\<forall>s player. wellFormed st \<and> consistent st \<and> playerId \<noteq> [] \<and>
        getPlayerById (players st) playerId = Some s \<and>
        map_of (playersOnline st) playerId = Some player \<and>
        card (presenceSet st) = squaresCount st \<and>
        heldSquare st playerId = None \<and> occupancy st x = None \<longrightarrow>
       (let st2 = assignSquare st playerId player x
        in occupancy st2 x = Some playerId \<and> heldSquare st2 playerId = Some x \<and>
           handleHold st (Body (playerId, Some x)) =
             (if checkLevelCompletion st2
              then (completeLevel st2, HoldSuccess (getBoardState (completeLevel st2)) True)
              else (st2, HoldSuccess (getBoardState st2) False))))"
proof -
  have 1: "snd (handleHold st (Body (playerId, Some x))) \<noteq> InvalidSquare"
    using assms(2,3) by (rule handleHold_in_range)
  have 2: "x \<notin> of_nat ` {0 ..< squaresCount st}"
    using assms(1) by auto
  have 3: "let st2 = assignSquare st playerId player x
        in occupancy st2 x = Some playerId \<and> heldSquare st2 playerId = Some x \<and>
           handleHold st (Body (playerId, Some x)) =
             (if checkLevelCompletion st2
              then (completeLevel st2, HoldSuccess (getBoardState (completeLevel st2)) True)
              else (st2, HoldSuccess (getBoardState st2) False))"
    if h: "wellFormed st" "consistent st" "playerId \<noteq> []"
      "getPlayerById (players st) playerId = Some s"
      "map_of (playersOnline st) playerId = Some player"
      "card (presenceSet st) = squaresCount st"
      "heldSquare st playerId = None" "occupancy st x = None" for s player
    using handleHold_passes [OF h(1-5) assms(2,3) h(6-8)] assignSquare_maps(1,2) [OF h(1,5)]
    by (simp add: Let_def)
  from 1 2 3 show ?thesis by blast
qed

theorem hold_fractional_square_witness:
  "(1 / 2 :: rat) \<notin> \<int> \<and> (0 :: rat) \<le> 1 / 2 \<and> (1 / 2 :: rat) < of_nat (squaresCount lobby) \<and>
   snd (handleHold lobby (Body (''p_a'', Some (1 / 2)))) \<noteq> InvalidSquare \<and>
   handleHold lobby (Body (''p_a'', Some (1 / 2))) =
     (lobbyHalf, HoldSuccess (getBoardState lobbyHalf) False) \<and>
   occupancy lobbyHalf (1 / 2) = Some ''p_a'' \<and> heldSquare lobbyHalf ''p_a'' = Some (1 / 2) \<and>
   map fst (occupied lobbyHalf) = [1 / 2]"
proof -
  have r: "(0 :: rat) \<le> 1 / 2" "(1 / 2 :: rat) < of_nat (squaresCount lobby)"
    by (simp_all add: demo_counts)
  note t = hold_fractional_square [OF half_not_int r, of "''p_a''"]
  have 1: "snd (handleHold lobby (Body (''p_a'', Some (1 / 2)))) \<noteq> InvalidSquare"
    using t by (rule conjunct1)
  have h: "wellFormed lobby \<and> consistent lobby \<and> ''p_a'' \<noteq> [] \<and>
      getPlayerById (players lobby) ''p_a'' = Some (demoPlayer ''p_a'') \<and>
      map_of (playersOnline lobby) ''p_a'' = Some (newOnline (demoPlayer ''p_a'')) \<and>
      card (presenceSet lobby) = squaresCount lobby \<and>
      heldSquare lobby ''p_a'' = None \<and> occupancy lobby (1 / 2) = None"
    using inv_lobby
    by (simp add: demo_stored demo_online demo_counts wellFormed_card heldSquare_def)
      (simp add: occupancy_def lobby_value initial_def)
  have n: "\<not> checkLevelCompletion lobbyHalf"
    by (simp add: checkLevelCompletion_def lobbyHalf_value lobby_value initial_def)
  from t [THEN conjunct2, THEN conjunct2, rule_format, OF h]
  have "occupancy lobbyHalf (1 / 2) = Some ''p_a'' \<and>
      heldSquare lobbyHalf ''p_a'' = Some (1 / 2) \<and>
      handleHold lobby (Body (''p_a'', Some (1 / 2))) =
        (lobbyHalf, HoldSuccess (getBoardState lobbyHalf) False)"
    unfolding Let_def lobbyHalf_def [symmetric] using n by simp
  moreover have "map fst (occupied lobbyHalf) = [1 / 2]"
    by (simp add: lobbyHalf_value)
  ultimately show ?thesis using half_not_int r 1 by (intro conjI) simp_all
qed

end
